theory Spec2Isabelle
  imports Main "HOL-Library.Word"
begin

unbundle bit_operations_syntax

section \<open>Machine words and NEON vectors\<close>

text \<open>
  The miner (\<^verbatim>\<open>src/src/bitcoin-miner.cpp\<close>) works on 32-bit words held in 128-bit
  NEON registers.  A \<^verbatim>\<open>uint32x4_t\<close> is a vector of four 32-bit lanes, lane 0 first;
  a \<^verbatim>\<open>uint8x16_t\<close> is sixteen bytes, grouped here four by four, the way
  \<^verbatim>\<open>vrev32q_u8\<close> and the reinterpret casts see them.  The target is AArch64 in its
  little-endian mode, so reinterpreting bytes as a word puts the first byte lowest.
\<close>

type_synonym u8 = "8 word"
type_synonym u32 = "32 word"
type_synonym uint32x4 = "u32 \<times> u32 \<times> u32 \<times> u32"
type_synonym uint8x4 = "u8 \<times> u8 \<times> u8 \<times> u8"
type_synonym uint8x16 = "uint8x4 \<times> uint8x4 \<times> uint8x4 \<times> uint8x4"

text \<open>
  \<^verbatim>\<open>uint32x4x6_t\<close> and \<^verbatim>\<open>uint32x4x14_t\<close> are structs holding one array
  \<^verbatim>\<open>val[n]\<close> of vectors; \<^verbatim>\<open>sm i\<close> stands for \<^verbatim>\<open>sm.val[i]\<close>.  A
  \<^verbatim>\<open>uint32_t*\<close> scratchpad is the function from word index to word.
\<close>

type_synonym uint32x4xN = "nat \<Rightarrow> uint32x4"
type_synonym u32ptr = "nat \<Rightarrow> u32"

definition le32 :: "u8 \<Rightarrow> u8 \<Rightarrow> u8 \<Rightarrow> u8 \<Rightarrow> u32" where
  "le32 b0 b1 b2 b3 =
     ucast b0 OR push_bit 8 (ucast b1) OR push_bit 16 (ucast b2) OR push_bit 24 (ucast b3)"

definition bytes_le :: "u32 \<Rightarrow> uint8x4" where
  "bytes_le w = (ucast w, ucast (drop_bit 8 w), ucast (drop_bit 16 w), ucast (drop_bit 24 w))"

text \<open>The four bytes of a word as they lie in memory.\<close>

definition le_bytes :: "u32 \<Rightarrow> u8 list" where
  "le_bytes w = [ucast w, ucast (drop_bit 8 w), ucast (drop_bit 16 w), ucast (drop_bit 24 w)]"

definition vreinterpretq_u32_u8 :: "uint8x16 \<Rightarrow> uint32x4" where
  "vreinterpretq_u32_u8 v =
     (case v of ((a0, a1, a2, a3), (b0, b1, b2, b3), (c0, c1, c2, c3), (d0, d1, d2, d3)) \<Rightarrow>
        (le32 a0 a1 a2 a3, le32 b0 b1 b2 b3, le32 c0 c1 c2 c3, le32 d0 d1 d2 d3))"

definition vreinterpretq_u8_u32 :: "uint32x4 \<Rightarrow> uint8x16" where
  "vreinterpretq_u8_u32 v =
     (case v of (a, b, c, d) \<Rightarrow> (bytes_le a, bytes_le b, bytes_le c, bytes_le d))"

definition rev4 :: "uint8x4 \<Rightarrow> uint8x4" where
  "rev4 g = (case g of (b0, b1, b2, b3) \<Rightarrow> (b3, b2, b1, b0))"

definition vrev32q_u8 :: "uint8x16 \<Rightarrow> uint8x16" where
  "vrev32q_u8 v = (case v of (a, b, c, d) \<Rightarrow> (rev4 a, rev4 b, rev4 c, rev4 d))"

definition vaddq_u32 :: "uint32x4 \<Rightarrow> uint32x4 \<Rightarrow> uint32x4" where
  "vaddq_u32 x y =
     (case x of (x0, x1, x2, x3) \<Rightarrow> case y of (y0, y1, y2, y3) \<Rightarrow>
        (x0 + y0, x1 + y1, x2 + y2, x3 + y3))"

definition lane1 :: "uint32x4 \<Rightarrow> u32" where
  "lane1 v = (case v of (a, b, c, d) \<Rightarrow> b)"

definition lane3 :: "uint32x4 \<Rightarrow> u32" where
  "lane3 v = (case v of (a, b, c, d) \<Rightarrow> d)"

definition set_lane1 :: "u32 \<Rightarrow> uint32x4 \<Rightarrow> uint32x4" where
  "set_lane1 x v = (case v of (a, b, c, d) \<Rightarrow> (a, x, c, d))"

definition set_lane3 :: "u32 \<Rightarrow> uint32x4 \<Rightarrow> uint32x4" where
  "set_lane3 x v = (case v of (a, b, c, d) \<Rightarrow> (a, b, c, x))"

definition vld1q_u32 :: "u32ptr \<Rightarrow> nat \<Rightarrow> uint32x4" where
  "vld1q_u32 p i = (p i, p (i + 1), p (i + 2), p (i + 3))"

definition vst1q_u32 :: "u32ptr \<Rightarrow> nat \<Rightarrow> uint32x4 \<Rightarrow> u32ptr" where
  "vst1q_u32 p i v =
     (case v of (a, b, c, d) \<Rightarrow> p(i := a, i + 1 := b, i + 2 := c, i + 3 := d))"

text \<open>
  \<^verbatim>\<open>*input32++\<close> on a \<^verbatim>\<open>const uint8x16_t*\<close> over the header buffer: the
  \<open>k\<close>-th sixteen bytes.  The buffer is a byte list; the callers hand in 112 bytes.
\<close>

definition input32 :: "u8 list \<Rightarrow> nat \<Rightarrow> uint8x16" where
  "input32 h k =
     ((h ! (16 * k), h ! (16 * k + 1), h ! (16 * k + 2), h ! (16 * k + 3)),
      (h ! (16 * k + 4), h ! (16 * k + 5), h ! (16 * k + 6), h ! (16 * k + 7)),
      (h ! (16 * k + 8), h ! (16 * k + 9), h ! (16 * k + 10), h ! (16 * k + 11)),
      (h ! (16 * k + 12), h ! (16 * k + 13), h ! (16 * k + 14), h ! (16 * k + 15)))"

section \<open>The SHA-256 instructions\<close>

text \<open>
  \<^verbatim>\<open>vsha256hq_u32\<close>, \<^verbatim>\<open>vsha256h2q_u32\<close>, \<^verbatim>\<open>vsha256su0q_u32\<close> and
  \<^verbatim>\<open>vsha256su1q_u32\<close> are the Armv8 instructions SHA256H, SHA256H2, SHA256SU0 and
  SHA256SU1.  They are hardware, not code of the repository; the definitions below
  transcribe the instruction pseudocode of the Arm Architecture Reference Manual
  (\<^verbatim>\<open>SHAchoose\<close>, \<^verbatim>\<open>SHAmajority\<close>, \<^verbatim>\<open>SHAhashSIGMA0\<close>, \<^verbatim>\<open>SHAhashSIGMA1\<close>,
  \<^verbatim>\<open>SHA256hash\<close>).  In \<^verbatim>\<open>SHA256hash\<close> the register \<open>X\<close> holds the state words
  \<open>a, b, c, d\<close> (lane 0 is \<open>a\<close>) and \<open>Y\<close> holds \<open>e, f, g, h\<close>; each of its four
  iterations ends with a rotation of the pair \<open>Y:X\<close> by one lane.
\<close>

definition SHAchoose :: "u32 \<Rightarrow> u32 \<Rightarrow> u32 \<Rightarrow> u32" where
  "SHAchoose x y z = ((y XOR z) AND x) XOR z"

definition SHAmajority :: "u32 \<Rightarrow> u32 \<Rightarrow> u32 \<Rightarrow> u32" where
  "SHAmajority x y z = (x AND y) OR ((x OR y) AND z)"

definition SHAhashSIGMA0 :: "u32 \<Rightarrow> u32" where
  "SHAhashSIGMA0 x = word_rotr 2 x XOR word_rotr 13 x XOR word_rotr 22 x"

definition SHAhashSIGMA1 :: "u32 \<Rightarrow> u32" where
  "SHAhashSIGMA1 x = word_rotr 6 x XOR word_rotr 11 x XOR word_rotr 25 x"

definition SHA256hash_iter :: "uint32x4 \<times> uint32x4 \<Rightarrow> u32 \<Rightarrow> uint32x4 \<times> uint32x4" where
  "SHA256hash_iter XY w =
     (case XY of ((x0, x1, x2, x3), (y0, y1, y2, y3)) \<Rightarrow>
        let chs = SHAchoose y0 y1 y2;
            maj = SHAmajority x0 x1 x2;
            t = y3 + SHAhashSIGMA1 y0 + chs + w;
            x3' = t + x3;
            y3' = t + SHAhashSIGMA0 x0 + maj
        in ((y3', x0, x1, x2), (x3', y0, y1, y2)))"

definition SHA256hash :: "uint32x4 \<Rightarrow> uint32x4 \<Rightarrow> uint32x4 \<Rightarrow> uint32x4 \<times> uint32x4" where
  "SHA256hash X Y W =
     (case W of (w0, w1, w2, w3) \<Rightarrow>
        SHA256hash_iter (SHA256hash_iter (SHA256hash_iter (SHA256hash_iter (X, Y) w0) w1) w2) w3)"

definition vsha256hq_u32 :: "uint32x4 \<Rightarrow> uint32x4 \<Rightarrow> uint32x4 \<Rightarrow> uint32x4" where
  "vsha256hq_u32 hash_abcd hash_efgh wk = fst (SHA256hash hash_abcd hash_efgh wk)"

definition vsha256h2q_u32 :: "uint32x4 \<Rightarrow> uint32x4 \<Rightarrow> uint32x4 \<Rightarrow> uint32x4" where
  "vsha256h2q_u32 hash_efgh hash_abcd wk = snd (SHA256hash hash_abcd hash_efgh wk)"

definition su0_elt :: "u32 \<Rightarrow> u32" where
  "su0_elt elt = word_rotr 7 elt XOR word_rotr 18 elt XOR drop_bit 3 elt"

definition su1_elt :: "u32 \<Rightarrow> u32" where
  "su1_elt elt = word_rotr 17 elt XOR word_rotr 19 elt XOR drop_bit 10 elt"

definition vsha256su0q_u32 :: "uint32x4 \<Rightarrow> uint32x4 \<Rightarrow> uint32x4" where
  "vsha256su0q_u32 w0_3 w4_7 =
     (case w0_3 of (w0, w1, w2, w3) \<Rightarrow> case w4_7 of (w4, w5, w6, w7) \<Rightarrow>
        (su0_elt w1 + w0, su0_elt w2 + w1, su0_elt w3 + w2, su0_elt w4 + w3))"

definition vsha256su1q_u32 :: "uint32x4 \<Rightarrow> uint32x4 \<Rightarrow> uint32x4 \<Rightarrow> uint32x4" where
  "vsha256su1q_u32 tw0_3 w8_11 w12_15 =
     (case tw0_3 of (t0, t1, t2, t3) \<Rightarrow> case w8_11 of (w8, w9, w10, w11) \<Rightarrow>
      case w12_15 of (w12, w13, w14, w15) \<Rightarrow>
        let r0 = su1_elt w14 + t0 + w9;
            r1 = su1_elt w15 + t1 + w10;
            r2 = su1_elt r0 + t2 + w11;
            r3 = su1_elt r1 + t3 + w12
        in (r0, r1, r2, r3))"

text \<open>The round constants, \<^verbatim>\<open>static const uint32_t K[64]\<close>.\<close>

definition K :: "u32 list" where
  "K = [
    0x428A2F98, 0x71374491, 0xB5C0FBCF, 0xE9B5DBA5,
    0x3956C25B, 0x59F111F1, 0x923F82A4, 0xAB1C5ED5,
    0xD807AA98, 0x12835B01, 0x243185BE, 0x550C7DC3,
    0x72BE5D74, 0x80DEB1FE, 0x9BDC06A7, 0xC19BF174,
    0xE49B69C1, 0xEFBE4786, 0x0FC19DC6, 0x240CA1CC,
    0x2DE92C6F, 0x4A7484AA, 0x5CB0A9DC, 0x76F988DA,
    0x983E5152, 0xA831C66D, 0xB00327C8, 0xBF597FC7,
    0xC6E00BF3, 0xD5A79147, 0x06CA6351, 0x14292967,
    0x27B70A85, 0x2E1B2138, 0x4D2C6DFC, 0x53380D13,
    0x650A7354, 0x766A0ABB, 0x81C2C92E, 0x92722C85,
    0xA2BFE8A1, 0xA81A664B, 0xC24B8B70, 0xC76C51A3,
    0xD192E819, 0xD6990624, 0xF40E3585, 0x106AA070,
    0x19A4C116, 0x1E376C08, 0x2748774C, 0x34B0BCB5,
    0x391C0CB3, 0x4ED8AA4A, 0x5B9CCA4F, 0x682E6FF3,
    0x748F82EE, 0x78A5636F, 0x84C87814, 0x8CC70208,
    0x90BEFFFA, 0xA4506CEB, 0xBEF9A3F7, 0xC67178F2]"

definition vld1q_K :: "nat \<Rightarrow> uint32x4" where
  "vld1q_K i = (K ! i, K ! (i + 1), K ! (i + 2), K ! (i + 3))"

definition SHA256INIT0 :: uint32x4 where
  "SHA256INIT0 = (0x6a09e667, 0xbb67ae85, 0x3c6ef372, 0xa54ff53a)"

definition SHA256INIT1 :: uint32x4 where
  "SHA256INIT1 = (0x510e527f, 0x9b05688c, 0x1f83d9ab, 0x5be0cd19)"

definition PADDING1 :: uint32x4 where
  "PADDING1 = (0x80000000, 0x00000000, 0x00000000, 0x00000380)"

definition PADDING2A :: uint32x4 where
  "PADDING2A = (0x80000000, 0x00000000, 0x00000000, 0x00000000)"

definition PADDING2B :: uint32x4 where
  "PADDING2B = (0x00000000, 0x00000000, 0x00000000, 0x00000100)"

section \<open>Round groups\<close>

text \<open>
  Every hashing function of the file is unrolled by hand into sixteen groups of four
  rounds, marked \<^verbatim>\<open>// Rounds 1-4\<close> to \<^verbatim>\<open>// Rounds 61-64\<close>.  One group, for one
  lane of work with state registers \<^verbatim>\<open>STATE0\<close>, \<^verbatim>\<open>STATE1\<close> and message registers
  \<^verbatim>\<open>MSG0\<close> .. \<^verbatim>\<open>MSG3\<close>, reads

  \<^verbatim>\<open>KTMP = vld1q_u32(&K[k]); TMP0 = vaddq_u32(MSGa, KTMP); TMP2 = STATE0;\<close>
  \<^verbatim>\<open>MSGa = vsha256su0q_u32(MSGa, MSGb);\<close>
  \<^verbatim>\<open>STATE0 = vsha256hq_u32(STATE0, STATE1, TMP0);\<close>
  \<^verbatim>\<open>STATE1 = vsha256h2q_u32(STATE1, TMP2, TMP0);\<close>
  \<^verbatim>\<open>MSGa = vsha256su1q_u32(MSGa, MSGc, MSGd);\<close>

  with \<open>(a, b, c, d)\<close> running through \<open>(0,1,2,3)\<close>, \<open>(1,2,3,0)\<close>, \<open>(2,3,0,1)\<close>,
  \<open>(3,0,1,2)\<close>; the last four groups leave out the two schedule updates.  The record
  \<open>lane\<close> holds the six registers of one lane (\<^verbatim>\<open>STATEA0\<close>, \<^verbatim>\<open>MSGA0\<close>, ... for lane A,
  \<^verbatim>\<open>STATEB0\<close>, ... for lane B, and so on).  The \<open>quad\<close> functions take \<^verbatim>\<open>TMP0\<close> as
  an argument, because \<^verbatim>\<open>BleMiner3Way\<close> computes it once for three lanes in rounds
  13-16; the \<open>rounds\<close> functions compute it from the lane's own message register.
\<close>

record lane =
  STATE0 :: uint32x4
  STATE1 :: uint32x4
  MSG0 :: uint32x4
  MSG1 :: uint32x4
  MSG2 :: uint32x4
  MSG3 :: uint32x4

definition quad_su0 :: "uint32x4 \<Rightarrow> lane \<Rightarrow> lane" where
  "quad_su0 TMP0 L =
     (let TMP2 = STATE0 L;
          M = vsha256su0q_u32 (MSG0 L) (MSG1 L);
          S0 = vsha256hq_u32 (STATE0 L) (STATE1 L) TMP0;
          S1 = vsha256h2q_u32 (STATE1 L) TMP2 TMP0;
          M = vsha256su1q_u32 M (MSG2 L) (MSG3 L)
      in L\<lparr>STATE0 := S0, STATE1 := S1, MSG0 := M\<rparr>)"

definition rounds_su0 :: "uint32x4 \<Rightarrow> lane \<Rightarrow> lane" where
  "rounds_su0 KTMP L = quad_su0 (vaddq_u32 (MSG0 L) KTMP) L"

definition quad_su1 :: "uint32x4 \<Rightarrow> lane \<Rightarrow> lane" where
  "quad_su1 TMP0 L =
     (let TMP2 = STATE0 L;
          M = vsha256su0q_u32 (MSG1 L) (MSG2 L);
          S0 = vsha256hq_u32 (STATE0 L) (STATE1 L) TMP0;
          S1 = vsha256h2q_u32 (STATE1 L) TMP2 TMP0;
          M = vsha256su1q_u32 M (MSG3 L) (MSG0 L)
      in L\<lparr>STATE0 := S0, STATE1 := S1, MSG1 := M\<rparr>)"

definition rounds_su1 :: "uint32x4 \<Rightarrow> lane \<Rightarrow> lane" where
  "rounds_su1 KTMP L = quad_su1 (vaddq_u32 (MSG1 L) KTMP) L"

definition quad_su2 :: "uint32x4 \<Rightarrow> lane \<Rightarrow> lane" where
  "quad_su2 TMP0 L =
     (let TMP2 = STATE0 L;
          M = vsha256su0q_u32 (MSG2 L) (MSG3 L);
          S0 = vsha256hq_u32 (STATE0 L) (STATE1 L) TMP0;
          S1 = vsha256h2q_u32 (STATE1 L) TMP2 TMP0;
          M = vsha256su1q_u32 M (MSG0 L) (MSG1 L)
      in L\<lparr>STATE0 := S0, STATE1 := S1, MSG2 := M\<rparr>)"

definition rounds_su2 :: "uint32x4 \<Rightarrow> lane \<Rightarrow> lane" where
  "rounds_su2 KTMP L = quad_su2 (vaddq_u32 (MSG2 L) KTMP) L"

definition quad_su3 :: "uint32x4 \<Rightarrow> lane \<Rightarrow> lane" where
  "quad_su3 TMP0 L =
     (let TMP2 = STATE0 L;
          M = vsha256su0q_u32 (MSG3 L) (MSG0 L);
          S0 = vsha256hq_u32 (STATE0 L) (STATE1 L) TMP0;
          S1 = vsha256h2q_u32 (STATE1 L) TMP2 TMP0;
          M = vsha256su1q_u32 M (MSG1 L) (MSG2 L)
      in L\<lparr>STATE0 := S0, STATE1 := S1, MSG3 := M\<rparr>)"

definition rounds_su3 :: "uint32x4 \<Rightarrow> lane \<Rightarrow> lane" where
  "rounds_su3 KTMP L = quad_su3 (vaddq_u32 (MSG3 L) KTMP) L"

definition quad_fin :: "uint32x4 \<Rightarrow> lane \<Rightarrow> lane" where
  "quad_fin TMP0 L =
     (let TMP2 = STATE0 L;
          S0 = vsha256hq_u32 (STATE0 L) (STATE1 L) TMP0;
          S1 = vsha256h2q_u32 (STATE1 L) TMP2 TMP0
      in L\<lparr>STATE0 := S0, STATE1 := S1\<rparr>)"

definition rounds_fin0 :: "uint32x4 \<Rightarrow> lane \<Rightarrow> lane" where
  "rounds_fin0 KTMP L = quad_fin (vaddq_u32 (MSG0 L) KTMP) L"

definition rounds_fin1 :: "uint32x4 \<Rightarrow> lane \<Rightarrow> lane" where
  "rounds_fin1 KTMP L = quad_fin (vaddq_u32 (MSG1 L) KTMP) L"

definition rounds_fin2 :: "uint32x4 \<Rightarrow> lane \<Rightarrow> lane" where
  "rounds_fin2 KTMP L = quad_fin (vaddq_u32 (MSG2 L) KTMP) L"

definition rounds_fin3 :: "uint32x4 \<Rightarrow> lane \<Rightarrow> lane" where
  "rounds_fin3 KTMP L = quad_fin (vaddq_u32 (MSG3 L) KTMP) L"

text \<open>
  Rounds 1-12, rounds 13-16 and rounds 17-64 of the unrolled sequence.  Together
  (\<open>sha256_rounds64\<close>) they are the text between the loading of the registers and the
  final \<^verbatim>\<open>vaddq_u32\<close> in \<^verbatim>\<open>BleMinerTransform1\<close> (lines 204-338),
  \<^verbatim>\<open>BleMinerInitialTransform\<close> (403-537), \<^verbatim>\<open>BleMiner\<close> (both transforms),
  \<^verbatim>\<open>BleMiner2Way\<close> and \<^verbatim>\<open>BleMiner4Way\<close> (every lane, the lanes interleaved group
  by group), \<^verbatim>\<open>BleMiner_1way\<close> (three times) and Transform 3 of \<^verbatim>\<open>BleMiner3Way\<close>.
\<close>

definition rounds_1_12 :: "lane \<Rightarrow> lane" where
  "rounds_1_12 L0 =
     (let L = rounds_su0 (vld1q_K 0) L0;
          L = rounds_su1 (vld1q_K 4) L;
          L = rounds_su2 (vld1q_K 8) L
      in L)"

definition rounds_13_16 :: "lane \<Rightarrow> lane" where
  "rounds_13_16 L = rounds_su3 (vld1q_K 12) L"

definition rounds_17_64 :: "lane \<Rightarrow> lane" where
  "rounds_17_64 L0 =
     (let L = rounds_su0 (vld1q_K 16) L0;
          L = rounds_su1 (vld1q_K 20) L;
          L = rounds_su2 (vld1q_K 24) L;
          L = rounds_su3 (vld1q_K 28) L;
          L = rounds_su0 (vld1q_K 32) L;
          L = rounds_su1 (vld1q_K 36) L;
          L = rounds_su2 (vld1q_K 40) L;
          L = rounds_su3 (vld1q_K 44) L;
          L = rounds_fin0 (vld1q_K 48) L;
          L = rounds_fin1 (vld1q_K 52) L;
          L = rounds_fin2 (vld1q_K 56) L;
          L = rounds_fin3 (vld1q_K 60) L
      in L)"

definition sha256_rounds64 :: "lane \<Rightarrow> lane" where
  "sha256_rounds64 L = rounds_17_64 (rounds_13_16 (rounds_1_12 L))"

definition bswap_vec :: "uint32x4 \<Rightarrow> uint32x4" where
  "bswap_vec v = vreinterpretq_u32_u8 (vrev32q_u8 (vreinterpretq_u8_u32 v))"

section \<open>The hashing functions\<close>

text \<open>
  The header buffer is 112 bytes: Transform 1 hashes bytes 0-63, Transform 2 the block
  made of bytes 64-111 and the padding \<^verbatim>\<open>{0x80000000, 0, 0, 0x380}\<close> (0x380 = 896 bits),
  Transform 3 the 32-byte result with the padding \<^verbatim>\<open>PADDING2A\<close>, \<^verbatim>\<open>PADDING2B\<close>
  (0x100 = 256 bits).  Bytes 96-111 are kept little-endian in the cache
  (\<^verbatim>\<open>val[4]\<close>, or words 16-19 of the flat scratchpad): lane 1 is \<^verbatim>\<open>nTime\<close>, lane 3 is
  \<^verbatim>\<open>nNonce\<close>.
\<close>

definition load_lane :: "uint32x4 \<Rightarrow> uint32x4 \<Rightarrow> uint32x4 \<Rightarrow> uint32x4 \<Rightarrow> uint32x4 \<Rightarrow> uint32x4 \<Rightarrow> lane" where
  "load_lane S0 S1 M0 M1 M2 M3 =
     \<lparr>STATE0 = S0, STATE1 = S1, MSG0 = M0, MSG1 = M1, MSG2 = M2, MSG3 = M3\<rparr>"

text \<open>
  The start of Transform 3 for one lane: the message is the sum of the lane's state and
  the state it started from, followed by the padding; the state is set to the initial
  constants.
\<close>

definition transform3_lane :: "uint32x4 \<Rightarrow> uint32x4 \<Rightarrow> uint32x4 \<Rightarrow> uint32x4 \<Rightarrow> uint32x4 \<Rightarrow> uint32x4 \<Rightarrow> lane \<Rightarrow> lane" where
  "transform3_lane prev0 prev1 pad2 pad3 init0 init1 L =
     (let M0 = vaddq_u32 (STATE0 L) prev0;
          M1 = vaddq_u32 (STATE1 L) prev1
      in load_lane init0 init1 M0 M1 pad2 pad3)"

text \<open>\<^verbatim>\<open>uint32x4x14_t BleMinerTransform1(unsigned char* blockheaders)\<close>, lines 184-380.
  The struct \<^verbatim>\<open>scratchpad\<close> is a local without initialiser; its members 6-11, which the
  function does not write, are zero vectors here (\<^verbatim>\<open>BleMiner3Way\<close> writes them before it
  reads them).\<close>

definition BleMinerTransform1 :: "u8 list \<Rightarrow> uint32x4xN" where
  "BleMinerTransform1 blockheaders =
     (let L = load_lane SHA256INIT0 SHA256INIT1
                (vreinterpretq_u32_u8 (vrev32q_u8 (input32 blockheaders 0)))
                (vreinterpretq_u32_u8 (vrev32q_u8 (input32 blockheaders 1)))
                (vreinterpretq_u32_u8 (vrev32q_u8 (input32 blockheaders 2)))
                (vreinterpretq_u32_u8 (vrev32q_u8 (input32 blockheaders 3)));
          L = sha256_rounds64 L;
          STATEA0 = vaddq_u32 (STATE0 L) SHA256INIT0;
          STATEA1 = vaddq_u32 (STATE1 L) SHA256INIT1;
          MSGA0 = vreinterpretq_u32_u8 (vrev32q_u8 (input32 blockheaders 4));
          MSGA1 = vreinterpretq_u32_u8 (vrev32q_u8 (input32 blockheaders 5));
          MSGA2 = vreinterpretq_u32_u8 (input32 blockheaders 6);
          MSGA3 = PADDING1;
          scratchpad = (\<lambda>i. (0, 0, 0, 0))
             (0 := STATEA0, 1 := STATEA1, 2 := vsha256su0q_u32 MSGA0 MSGA1,
              3 := MSGA1, 4 := MSGA2, 5 := MSGA3);
          L = load_lane STATEA0 STATEA1 MSGA0 MSGA1 MSGA2 MSGA3;
          L = rounds_fin0 (vld1q_K 0) L;
          L = rounds_fin1 (vld1q_K 4) L
      in scratchpad(12 := STATE0 L, 13 := STATE1 L))"

text \<open>\<^verbatim>\<open>void BleMinerInitialTransform(const unsigned char* blockheaders, uint32_t* scratchpad)\<close>,
  lines 383-568: the flat cache of \<^verbatim>\<open>BleMiner4Way\<close>, forty words.\<close>

definition BleMinerInitialTransform :: "u8 list \<Rightarrow> u32ptr \<Rightarrow> u32ptr" where
  "BleMinerInitialTransform blockheaders scratchpad =
     (let L = load_lane SHA256INIT0 SHA256INIT1
                (vreinterpretq_u32_u8 (vrev32q_u8 (input32 blockheaders 0)))
                (vreinterpretq_u32_u8 (vrev32q_u8 (input32 blockheaders 1)))
                (vreinterpretq_u32_u8 (vrev32q_u8 (input32 blockheaders 2)))
                (vreinterpretq_u32_u8 (vrev32q_u8 (input32 blockheaders 3)));
          L = sha256_rounds64 L;
          STATEA0 = vaddq_u32 (STATE0 L) SHA256INIT0;
          STATEA1 = vaddq_u32 (STATE1 L) SHA256INIT1;
          MSGA0 = vreinterpretq_u32_u8 (vrev32q_u8 (input32 blockheaders 4));
          MSGA1 = vreinterpretq_u32_u8 (vrev32q_u8 (input32 blockheaders 5));
          MSGA2 = vreinterpretq_u32_u8 (input32 blockheaders 6);
          MSGA3 = PADDING1;
          scratchpad = vst1q_u32 scratchpad 0 STATEA0;
          scratchpad = vst1q_u32 scratchpad 4 STATEA1;
          scratchpad = vst1q_u32 scratchpad 8 MSGA0;
          scratchpad = vst1q_u32 scratchpad 12 MSGA1;
          scratchpad = vst1q_u32 scratchpad 16 MSGA2;
          scratchpad = vst1q_u32 scratchpad 20 MSGA3;
          scratchpad = vst1q_u32 scratchpad 24 SHA256INIT0;
          scratchpad = vst1q_u32 scratchpad 28 SHA256INIT1;
          scratchpad = vst1q_u32 scratchpad 32 PADDING2A;
          scratchpad = vst1q_u32 scratchpad 36 PADDING2B
      in scratchpad)"

text \<open>\<^verbatim>\<open>uint32x4x2_t BleMiner(uint32x4x6_t stateandmessage)\<close>, lines 571-1141: one lane,
  from the six-vector cache (state, bytes 64-95 big-endian, bytes 96-111 little-endian,
  padding).\<close>

definition BleMiner :: "uint32x4xN \<Rightarrow> uint32x4 \<times> uint32x4" where
  "BleMiner stateandmessage =
     (let A = load_lane (stateandmessage 0) (stateandmessage 1)
                (stateandmessage 2) (stateandmessage 3)
                (bswap_vec (stateandmessage 4)) (stateandmessage 5);
          A = sha256_rounds64 A;
          A = transform3_lane (stateandmessage 0) (stateandmessage 1)
                PADDING2A PADDING2B SHA256INIT0 SHA256INIT1 A;
          A = sha256_rounds64 A
      in (vaddq_u32 (STATE0 A) SHA256INIT0, vaddq_u32 (STATE1 A) SHA256INIT1))"

text \<open>\<^verbatim>\<open>stateandmessage.val[4][3]++\<close>.\<close>

definition inc_nonce :: "uint32x4xN \<Rightarrow> uint32x4xN" where
  "inc_nonce sm = sm(4 := set_lane3 (lane3 (sm 4) + 1) (sm 4))"

text \<open>\<^verbatim>\<open>uint32x4x4_t BleMiner2Way(uint32x4x6_t stateandmessage)\<close>, lines 1144-1724.  The
  argument is passed by value: the increment of the nonce stays local.\<close>

definition BleMiner2Way :: "uint32x4xN \<Rightarrow> uint32x4 \<times> uint32x4 \<times> uint32x4 \<times> uint32x4" where
  "BleMiner2Way stateandmessage =
     (let sm = stateandmessage;
          A = load_lane (sm 0) (sm 1) (sm 2) (sm 3) (bswap_vec (sm 4)) (sm 5);
          sm = inc_nonce sm;
          B = load_lane (sm 0) (sm 1) (sm 2) (sm 3) (bswap_vec (sm 4)) (sm 5);
          A = sha256_rounds64 A;
          B = sha256_rounds64 B;
          A = transform3_lane (sm 0) (sm 1) PADDING2A PADDING2B SHA256INIT0 SHA256INIT1 A;
          B = transform3_lane (sm 0) (sm 1) PADDING2A PADDING2B SHA256INIT0 SHA256INIT1 B;
          A = sha256_rounds64 A;
          B = sha256_rounds64 B
      in (vaddq_u32 (STATE0 A) SHA256INIT0, vaddq_u32 (STATE1 A) SHA256INIT1,
          vaddq_u32 (STATE0 B) SHA256INIT0, vaddq_u32 (STATE1 B) SHA256INIT1))"

text \<open>
  \<^verbatim>\<open>void BleMiner3Way(uint32x4x14_t& stateandmessage)\<close>, lines 1733-2538, the hasher of
  the active worker.  The states of the lanes A, B, C live in \<^verbatim>\<open>val[6..7]\<close>,
  \<^verbatim>\<open>val[8..9]\<close>, \<^verbatim>\<open>val[10..11]\<close>.  Transform 2 differs from the plain sequence:
  rounds 1-8 were run by \<^verbatim>\<open>BleMinerTransform1\<close> (\<^verbatim>\<open>val[12]\<close>, \<^verbatim>\<open>val[13]\<close>) and
  \<^verbatim>\<open>val[2]\<close> already went through \<^verbatim>\<open>vsha256su0q_u32\<close>, so only schedule updates are
  left of the first two groups; rounds 9-12 start from \<^verbatim>\<open>val[12]\<close>, \<^verbatim>\<open>val[13]\<close>; in
  rounds 13-16 of both transforms \<^verbatim>\<open>TMP0\<close> is computed for lane A only and used by
  all three lanes.
\<close>

definition sched_1_4 :: "lane \<Rightarrow> lane" where
  "sched_1_4 L = L\<lparr>MSG0 := vsha256su1q_u32 (MSG0 L) (MSG2 L) (MSG3 L)\<rparr>"

definition sched_5_8 :: "lane \<Rightarrow> lane" where
  "sched_5_8 L =
     (let M = vsha256su0q_u32 (MSG1 L) (MSG2 L);
          M = vsha256su1q_u32 M (MSG3 L) (MSG0 L)
      in L\<lparr>MSG1 := M\<rparr>)"

definition rounds_9_12_cached :: "uint32x4 \<Rightarrow> uint32x4 \<Rightarrow> uint32x4 \<Rightarrow> lane \<Rightarrow> lane" where
  "rounds_9_12_cached val12 val13 KTMP L =
     (let TMP0 = vaddq_u32 (MSG2 L) KTMP;
          M = vsha256su0q_u32 (MSG2 L) (MSG3 L);
          S0 = vsha256hq_u32 val12 val13 TMP0;
          S1 = vsha256h2q_u32 val13 val12 TMP0;
          M = vsha256su1q_u32 M (MSG0 L) (MSG1 L)
      in L\<lparr>STATE0 := S0, STATE1 := S1, MSG2 := M\<rparr>)"

definition BleMiner3Way :: "uint32x4xN \<Rightarrow> uint32x4xN" where
  "BleMiner3Way stateandmessage =
     (let sm = stateandmessage;
          A = load_lane (sm 6) (sm 7) (sm 2) (sm 3) (bswap_vec (sm 4)) (sm 5);
          sm = inc_nonce sm;
          B = load_lane (sm 8) (sm 9) (sm 2) (sm 3) (bswap_vec (sm 4)) (sm 5);
          sm = inc_nonce sm;
          C = load_lane (sm 10) (sm 11) (sm 2) (sm 3) (bswap_vec (sm 4)) (sm 5);
          sm = inc_nonce sm;
          A = sched_1_4 A;
          B = sched_1_4 B;
          C = sched_1_4 C;
          A = sched_5_8 A;
          B = sched_5_8 B;
          C = sched_5_8 C;
          KTMP = vld1q_K 8;
          A = rounds_9_12_cached (sm 12) (sm 13) KTMP A;
          B = rounds_9_12_cached (sm 12) (sm 13) KTMP B;
          C = rounds_9_12_cached (sm 12) (sm 13) KTMP C;
          KTMP = vld1q_K 12;
          TMP0 = vaddq_u32 (MSG3 A) KTMP;
          A = quad_su3 TMP0 A;
          B = quad_su3 TMP0 B;
          C = quad_su3 TMP0 C;
          A = rounds_17_64 A;
          B = rounds_17_64 B;
          C = rounds_17_64 C;
          A = transform3_lane (sm 0) (sm 1) PADDING2A PADDING2B SHA256INIT0 SHA256INIT1 A;
          B = transform3_lane (sm 0) (sm 1) PADDING2A PADDING2B SHA256INIT0 SHA256INIT1 B;
          C = transform3_lane (sm 0) (sm 1) PADDING2A PADDING2B SHA256INIT0 SHA256INIT1 C;
          A = rounds_1_12 A;
          B = rounds_1_12 B;
          C = rounds_1_12 C;
          KTMP = vld1q_K 12;
          TMP0 = vaddq_u32 (MSG3 A) KTMP;
          A = quad_su3 TMP0 A;
          B = quad_su3 TMP0 B;
          C = quad_su3 TMP0 C;
          A = rounds_17_64 A;
          B = rounds_17_64 B;
          C = rounds_17_64 C
      in sm(6 := vaddq_u32 (STATE0 A) SHA256INIT0, 7 := vaddq_u32 (STATE1 A) SHA256INIT1,
            8 := vaddq_u32 (STATE0 B) SHA256INIT0, 9 := vaddq_u32 (STATE1 B) SHA256INIT1,
            10 := vaddq_u32 (STATE0 C) SHA256INIT0, 11 := vaddq_u32 (STATE1 C) SHA256INIT1))"

text \<open>
  \<^verbatim>\<open>void BleMiner4Way(uint32_t* stateandmessage, uint32x4x24_t& workpad)\<close>, lines
  2547-3613, on the flat cache of \<^verbatim>\<open>BleMinerInitialTransform\<close>.  The struct
  \<^verbatim>\<open>uint32x4x24_t\<close> holds the registers of four lanes.  The body of
  \<^verbatim>\<open>for(int i = 0; i < 2; i++)\<close> is the sixty-four rounds for all lanes, followed, when
  \<^verbatim>\<open>i == 0\<close>, by the start of Transform 3 with padding and initial state read from
  the cache.
\<close>

record uint32x4x24 =
  wpA :: lane
  wpB :: lane
  wpC :: lane
  wpD :: lane

definition BleMiner4Way_body :: "u32ptr \<Rightarrow> nat \<Rightarrow> uint32x4x24 \<Rightarrow> uint32x4x24" where
  "BleMiner4Way_body sm i workpad =
     (let w = \<lparr>wpA = sha256_rounds64 (wpA workpad), wpB = sha256_rounds64 (wpB workpad),
               wpC = sha256_rounds64 (wpC workpad), wpD = sha256_rounds64 (wpD workpad)\<rparr>
      in if i = 0 then
           (let TMP0 = vld1q_u32 sm 0;
                TMP2 = vld1q_u32 sm 4;
                MSGA2 = vld1q_u32 sm 32;
                MSGA3 = vld1q_u32 sm 36;
                INIT0 = vld1q_u32 sm 24;
                INIT1 = vld1q_u32 sm 28
            in \<lparr>wpA = transform3_lane TMP0 TMP2 MSGA2 MSGA3 INIT0 INIT1 (wpA w),
                wpB = transform3_lane TMP0 TMP2 MSGA2 MSGA3 INIT0 INIT1 (wpB w),
                wpC = transform3_lane TMP0 TMP2 MSGA2 MSGA3 INIT0 INIT1 (wpC w),
                wpD = transform3_lane TMP0 TMP2 MSGA2 MSGA3 INIT0 INIT1 (wpD w)\<rparr>)
         else w)"

definition finish_lane :: "uint32x4 \<Rightarrow> uint32x4 \<Rightarrow> lane \<Rightarrow> lane" where
  "finish_lane TMP0 TMP2 L =
     L\<lparr>STATE0 := vaddq_u32 (STATE0 L) TMP0, STATE1 := vaddq_u32 (STATE1 L) TMP2\<rparr>"

definition BleMiner4Way :: "u32ptr \<Rightarrow> uint32x4x24 \<Rightarrow> u32ptr \<times> uint32x4x24" where
  "BleMiner4Way stateandmessage workpad =
     (let sm = stateandmessage;
          STATEA0 = vld1q_u32 sm 0;
          STATEA1 = vld1q_u32 sm 4;
          MSGA0 = vld1q_u32 sm 8;
          MSGA1 = vld1q_u32 sm 12;
          MSGA2 = bswap_vec (vld1q_u32 sm 16);
          MSGA3 = vld1q_u32 sm 20;
          sm = sm(19 := sm 19 + 1);
          MSGB2 = bswap_vec (vld1q_u32 sm 16);
          sm = sm(19 := sm 19 + 1);
          MSGC2 = bswap_vec (vld1q_u32 sm 16);
          sm = sm(19 := sm 19 + 1);
          MSGD2 = bswap_vec (vld1q_u32 sm 16);
          sm = sm(19 := sm 19 + 1);
          w = workpad\<lparr>wpA := load_lane STATEA0 STATEA1 MSGA0 MSGA1 MSGA2 MSGA3,
                       wpB := load_lane STATEA0 STATEA1 MSGA0 MSGA1 MSGB2 MSGA3,
                       wpC := load_lane STATEA0 STATEA1 MSGA0 MSGA1 MSGC2 MSGA3,
                       wpD := load_lane STATEA0 STATEA1 MSGA0 MSGA1 MSGD2 MSGA3\<rparr>;
          w = fold (BleMiner4Way_body sm) [0, 1] w;
          TMP0 = vld1q_u32 sm 24;
          TMP2 = vld1q_u32 sm 28
      in (sm, \<lparr>wpA = finish_lane TMP0 TMP2 (wpA w), wpB = finish_lane TMP0 TMP2 (wpB w),
               wpC = finish_lane TMP0 TMP2 (wpC w), wpD = finish_lane TMP0 TMP2 (wpD w)\<rparr>))"

text \<open>\<^verbatim>\<open>uint32x4x2_t BleMiner_1way(unsigned char* blockheaders)\<close>, lines 4536-5373: all
  three transforms for the header as it stands, one lane, nothing cached.\<close>

definition BleMiner_1way :: "u8 list \<Rightarrow> uint32x4 \<times> uint32x4" where
  "BleMiner_1way blockheaders =
     (let A = load_lane SHA256INIT0 SHA256INIT1
                (vreinterpretq_u32_u8 (vrev32q_u8 (input32 blockheaders 0)))
                (vreinterpretq_u32_u8 (vrev32q_u8 (input32 blockheaders 1)))
                (vreinterpretq_u32_u8 (vrev32q_u8 (input32 blockheaders 2)))
                (vreinterpretq_u32_u8 (vrev32q_u8 (input32 blockheaders 3)));
          A = sha256_rounds64 A;
          STATEA0_BACKUP = vaddq_u32 (STATE0 A) SHA256INIT0;
          STATEA1_BACKUP = vaddq_u32 (STATE1 A) SHA256INIT1;
          A = load_lane STATEA0_BACKUP STATEA1_BACKUP
                (vreinterpretq_u32_u8 (vrev32q_u8 (input32 blockheaders 4)))
                (vreinterpretq_u32_u8 (vrev32q_u8 (input32 blockheaders 5)))
                (vreinterpretq_u32_u8 (vrev32q_u8 (input32 blockheaders 6)))
                PADDING1;
          A = sha256_rounds64 A;
          A = transform3_lane STATEA0_BACKUP STATEA1_BACKUP
                PADDING2A PADDING2B SHA256INIT0 SHA256INIT1 A;
          A = sha256_rounds64 A
      in (vaddq_u32 (STATE0 A) SHA256INIT0, vaddq_u32 (STATE1 A) SHA256INIT1))"

section \<open>The proof-of-work check\<close>

text \<open>
  The digest of a lane as the worker hands it to the proof-of-work check
  (\<^verbatim>\<open>proofOfWorkFinder\<close>, lines 5883-5888): both state vectors go through
  \<^verbatim>\<open>vrev32q_u8\<close>, then \<^verbatim>\<open>std::memcpy(&currenthash, &msgctx.val[6], 32)\<close> copies
  the thirty-two bytes, in memory order, into the \<^verbatim>\<open>uint256\<close>.
\<close>

definition vec_bytes :: "uint8x16 \<Rightarrow> u8 list" where
  "vec_bytes v =
     (case v of ((a0, a1, a2, a3), (b0, b1, b2, b3), (c0, c1, c2, c3), (d0, d1, d2, d3)) \<Rightarrow>
        [a0, a1, a2, a3, b0, b1, b2, b3, c0, c1, c2, c3, d0, d1, d2, d3])"

definition memcpy32 :: "uint32x4 \<Rightarrow> uint32x4 \<Rightarrow> u8 list" where
  "memcpy32 v0 v1 = vec_bytes (vreinterpretq_u8_u32 v0) @ vec_bytes (vreinterpretq_u8_u32 v1)"

definition hash_bytes :: "uint32x4 \<Rightarrow> uint32x4 \<Rightarrow> u8 list" where
  "hash_bytes v0 v1 = memcpy32 (bswap_vec v0) (bswap_vec v1)"

text \<open>
  Modelled from the spec: \<^verbatim>\<open>CheckProofOfWork\<close>, the decoding of the compact target
  and the consensus parameters (\<^verbatim>\<open>pow.cpp\<close>, \<^verbatim>\<open>arith_uint256.cpp\<close>,
  \<^verbatim>\<open>consensus/params.h\<close>, \<^verbatim>\<open>chainparams.cpp\<close>) are not among the source files.  The
  spec: the check ``decodes compact bits, handles sign/overflow edge cases''; a digest
  whose number is at most the target passes, one greater fails, and the all-zero digest
  passes for every nonzero target.  The compact form is a byte count in the top eight
  bits, a sign bit and a 23-bit mantissa; a negative, zero or overflowing target passes
  nothing.  The number of a \<^verbatim>\<open>uint256\<close> has its bytes in memory least significant
  first (the hexadecimal string printed for a hash is that number written big-endian).

  Every call of the source hands the check a third argument,
  \<^verbatim>\<open>chainparams.GetConsensus()\<close> (lines 5893, 5915, 5937), which the two-argument
  contract of the spec leaves out.  The check reads one member of it, the proof-of-work
  limit \<^verbatim>\<open>powLimit\<close>: a target above the limit is out of range and passes nothing.
  The value of the limit for the chain the miner selects (line 6078) is not in the
  source files; it is a component of the parameters here.
\<close>

record Consensus_Params =
  powLimit :: nat

definition compact_size :: "u32 \<Rightarrow> nat" where
  "compact_size nCompact = unat (drop_bit 24 nCompact)"

definition compact_word :: "u32 \<Rightarrow> nat" where
  "compact_word nCompact = unat (nCompact AND 0x007fffff)"

definition compact_target :: "u32 \<Rightarrow> nat" where
  "compact_target nCompact =
     (if compact_size nCompact \<le> 3
      then compact_word nCompact div 2 ^ (8 * (3 - compact_size nCompact))
      else (compact_word nCompact * 2 ^ (8 * (compact_size nCompact - 3))) mod 2 ^ 256)"

definition compact_negative :: "u32 \<Rightarrow> bool" where
  "compact_negative nCompact \<longleftrightarrow>
     compact_word nCompact \<noteq> 0 \<and> nCompact AND 0x00800000 \<noteq> 0"

definition compact_overflow :: "u32 \<Rightarrow> bool" where
  "compact_overflow nCompact \<longleftrightarrow>
     compact_word nCompact \<noteq> 0 \<and>
     (compact_size nCompact > 34 \<or>
      (compact_word nCompact > 0xff \<and> compact_size nCompact > 33) \<or>
      (compact_word nCompact > 0xffff \<and> compact_size nCompact > 32))"

definition uint256_value :: "u8 list \<Rightarrow> nat" where
  "uint256_value bs = foldr (\<lambda>b n. unat b + 256 * n) bs 0"

definition CheckProofOfWork :: "u8 list \<Rightarrow> u32 \<Rightarrow> Consensus_Params \<Rightarrow> bool" where
  "CheckProofOfWork hash nBits params =
     (if compact_negative nBits \<or> compact_target nBits = 0 \<or> compact_overflow nBits
         \<or> compact_target nBits > powLimit params
      then False
      else uint256_value hash \<le> compact_target nBits)"

text \<open>The quick filter of the worker: \<^verbatim>\<open>msgctx.val[7][3] == 0\<close> for lane A,
  \<^verbatim>\<open>val[9][3]\<close> and \<^verbatim>\<open>val[11][3]\<close> for lanes B and C.\<close>

definition quick_filter :: "uint32x4 \<Rightarrow> bool" where
  "quick_filter v1 \<longleftrightarrow> lane3 v1 = 0"

section \<open>The nonce-range worker\<close>

text \<open>
  The classes \<^verbatim>\<open>CBlock\<close> and \<^verbatim>\<open>uint256\<close> are declared outside the source files.
  The record keeps the header fields the worker reads and writes; \<^verbatim>\<open>hashPrevBlock\<close>
  stands for the string \<^verbatim>\<open>block.hashPrevBlock.GetHex()\<close>.  \<^verbatim>\<open>SetNull\<close> clears the
  header and \<^verbatim>\<open>IsNull\<close> tests \<^verbatim>\<open>nBits == 0\<close>, as in the block header class of
  Bitcoin Core.
\<close>

record CBlock =
  hashPrevBlock :: string
  nTime :: u32
  nBits :: u32
  nNonce :: u32

definition SetNull :: "CBlock \<Rightarrow> CBlock" where
  "SetNull b = \<lparr>hashPrevBlock = replicate 64 CHR ''0'', nTime = 0, nBits = 0, nNonce = 0\<rparr>"

definition IsNull :: "CBlock \<Rightarrow> bool" where
  "IsNull b \<longleftrightarrow> nBits b = 0"

text \<open>\<^verbatim>\<open>struct MinerHandler\<close>, lines 46-68.\<close>

record MinerHandler =
  found :: bool
  interrupt :: bool
  stop :: bool
  block :: CBlock
  mineStartTime :: int
  currentOffset :: "nat \<Rightarrow> u32"


text \<open>
  What the worker reads from outside, as streams indexed by the number of the read:
  the adjusted time, the hash of the chain tip as a hexadecimal string, the peer probe
  \<^verbatim>\<open>hasPeers()\<close>, and, at the top of each pass of the work loop, what the other threads
  and the signal handler have written into the shared handler since the last pass;
  \<open>Params\<close> is the consensus part of the chain parameters, \<^verbatim>\<open>Params().GetConsensus()\<close>.
\<close>

record environment =
  Params :: Consensus_Params
  GetAdjustedTime :: "nat \<Rightarrow> u32"
  chain_tip :: "nat \<Rightarrow> string"
  hasPeers :: "nat \<Rightarrow> bool"
  other_threads :: "nat \<Rightarrow> MinerHandler \<Rightarrow> MinerHandler"

text \<open>
  The locals of \<^verbatim>\<open>proofOfWorkFinder\<close> and the handler it points to; the counters
  number the reads of the environment, \<open>slept\<close> adds up the milliseconds of
  \<^verbatim>\<open>MilliSleep\<close>, \<open>submitted\<close> is the block handed to \<^verbatim>\<open>ProcessNewBlock\<close>.
\<close>

record finder =
  chainparams :: Consensus_Params
  msgctx :: uint32x4xN
  blk :: CBlock
  currenthash :: "u8 list"
  chaintipblockhash :: string
  handler :: MinerHandler
  passes :: nat
  time_reads :: nat
  tip_reads :: nat
  peer_probes :: nat
  slept :: nat
  submitted :: "CBlock option"

datatype 'a flow = Continue 'a | Break 'a

text \<open>
  The test of one lane, lines 5881-5900 (lane A), 5904-5922 (lane B), 5926-5944
  (lane C): \<open>lo\<close> and \<open>hi\<close> are the indices of the lane's result in \<^verbatim>\<open>msgctx.val\<close> and
  \<open>back\<close> is 3, 2 or 1.  On a quick-filter hit the two vectors are byte-swapped in
  place and copied to \<^verbatim>\<open>currenthash\<close>; when the full check passes the nonce is
  written to the block, \<^verbatim>\<open>handler->stop\<close> is set and the loop is left.
\<close>

definition test_lane :: "nat \<Rightarrow> nat \<Rightarrow> u32 \<Rightarrow> finder \<Rightarrow> finder flow" where
  "test_lane lo hi back st =
     (if lane3 (msgctx st hi) = 0 then
        (let m = (msgctx st)(lo := bswap_vec (msgctx st lo));
             m = m(hi := bswap_vec (m hi));
             st = st\<lparr>msgctx := m, currenthash := memcpy32 (m lo) (m hi)\<rparr>
         in if CheckProofOfWork (currenthash st) (nBits (blk st)) (chainparams st) then
              Break (st\<lparr>blk := (blk st)\<lparr>nNonce := lane3 (msgctx st 4) - back\<rparr>,
                        handler := (handler st)\<lparr>stop := True\<rparr>\<rparr>)
            else Continue st)
      else Continue st)"

definition test_lanes :: "finder \<Rightarrow> finder flow" where
  "test_lanes st =
     (case test_lane 6 7 3 st of
        Break st \<Rightarrow> Break st
      | Continue st \<Rightarrow>
          (case test_lane 8 9 2 st of
             Break st \<Rightarrow> Break st
           | Continue st \<Rightarrow> test_lane 10 11 1 st))"

text \<open>
  The polling of the chain tip by worker 0, lines 5971-5975:
  \<^verbatim>\<open>while((chaintipblockhash != Tip() || chaintipblockhash.length() < 64)\<close>
  \<^verbatim>\<open>      && !handler->stop && !handler->interrupt)\<close>
  \<^verbatim>\<open>{ MilliSleep(5); chaintipblockhash = Tip(); }\<close>.
  The loop ends when two reads in a row agree; the fuel bounds the passes, and
  running out of it is \<open>None\<close>.
\<close>

fun poll_tip :: "environment \<Rightarrow> nat \<Rightarrow> finder \<Rightarrow> finder option" where
  "poll_tip env 0 st = None"
| "poll_tip env (Suc n) st =
     (let tip = chain_tip env (tip_reads st);
          st = st\<lparr>tip_reads := tip_reads st + 1\<rparr>
      in if (chaintipblockhash st \<noteq> tip \<or> length (chaintipblockhash st) < 64)
            \<and> \<not> stop (handler st) \<and> \<not> interrupt (handler st)
         then poll_tip env n
                (st\<lparr>slept := slept st + 5,
                    chaintipblockhash := chain_tip env (tip_reads st),
                    tip_reads := tip_reads st + 1\<rparr>)
         else Some st)"

text \<open>The condition of the housekeeping block, line 5953:
  \<^verbatim>\<open>if(msgctx.val[4][3] % 3000000 == 0)\<close>.\<close>

definition housekeeping_due :: "uint32x4xN \<Rightarrow> bool" where
  "housekeeping_due m \<longleftrightarrow> unat (lane3 (m 4)) mod 3000000 = 0"

text \<open>The housekeeping block, lines 5953-5989.\<close>

definition housekeeping :: "environment \<Rightarrow> nat \<Rightarrow> u32 \<Rightarrow> u32 \<Rightarrow> u32 \<Rightarrow> string \<Rightarrow> finder \<Rightarrow> finder option" where
  "housekeeping env fuel idx from to hashPrev st0 =
     (let st = st0\<lparr>blk := (blk st0)\<lparr>nTime := GetAdjustedTime env (time_reads st0)\<rparr>,
                   time_reads := time_reads st0 + 1\<rparr>;
          st = st\<lparr>msgctx := (msgctx st)(4 := set_lane1 (nTime (blk st)) (msgctx st 4))\<rparr>
      in if idx = 0 then
           (let st = (if interrupt (handler st)
                      then st\<lparr>handler := (handler st)\<lparr>stop := True\<rparr>\<rparr> else st);
                st = st\<lparr>slept := slept st + 5\<rparr>
            in case poll_tip env fuel st of
                 None \<Rightarrow> None
               | Some st \<Rightarrow>
                  (let st = (if chaintipblockhash st \<noteq> hashPrev
                             then st\<lparr>handler := (handler st)\<lparr>stop := True\<rparr>\<rparr> else st);
                       st = (if nNonce (blk st) \<ge> to \<or> nNonce (blk st) < from
                             then st\<lparr>handler := (handler st)\<lparr>stop := True\<rparr>,
                                     slept := slept st + 10,
                                     blk := SetNull (blk st)\<rparr>
                             else st)
                   in Some st))
         else Some st)"

text \<open>
  One pass of \<^verbatim>\<open>while(true)\<close>, lines 5810-5990: the stop test, the batch of three
  hashes, the test of the three lanes, the housekeeping when it is due.  \<open>Break\<close> is a
  \<^verbatim>\<open>break\<close>; every other path goes round again.
\<close>

definition work_pass :: "environment \<Rightarrow> nat \<Rightarrow> u32 \<Rightarrow> u32 \<Rightarrow> u32 \<Rightarrow> string \<Rightarrow> finder \<Rightarrow> finder flow option" where
  "work_pass env fuel idx from to hashPrev st0 =
     (let st = st0\<lparr>handler := other_threads env (passes st0) (handler st0),
                   passes := passes st0 + 1\<rparr>
      in if stop (handler st) then
           Some (Break (st\<lparr>handler := (handler st)\<lparr>currentOffset :=
                             (currentOffset (handler st))(unat idx := lane3 (msgctx st 4) - from)\<rparr>,
                           slept := slept st + 50,
                           blk := SetNull (blk st)\<rparr>))
         else
           (case test_lanes (st\<lparr>msgctx := BleMiner3Way (msgctx st)\<rparr>) of
              Break st \<Rightarrow> Some (Break st)
            | Continue st \<Rightarrow>
                if housekeeping_due (msgctx st)
                then map_option Continue (housekeeping env fuel idx from to hashPrev st)
                else Some (Continue st)))"

text \<open>The work loop: at most \<open>n\<close> passes, \<open>None\<close> when they do not reach a
  \<^verbatim>\<open>break\<close> (or the polling inside one runs out of fuel).\<close>

fun work_loop :: "environment \<Rightarrow> nat \<Rightarrow> u32 \<Rightarrow> u32 \<Rightarrow> u32 \<Rightarrow> string \<Rightarrow> nat \<Rightarrow> finder \<Rightarrow> finder option" where
  "work_loop env fuel idx from to hashPrev 0 st = None"
| "work_loop env fuel idx from to hashPrev (Suc n) st =
     (case work_pass env fuel idx from to hashPrev st of
        None \<Rightarrow> None
      | Some (Break st) \<Rightarrow> Some st
      | Some (Continue st) \<Rightarrow> work_loop env fuel idx from to hashPrev n st)"

text \<open>The state after \<open>n\<close> passes that all went round again (\<open>None\<close> when one of
  them left the loop or ran out of fuel).\<close>

fun work_passes :: "environment \<Rightarrow> nat \<Rightarrow> u32 \<Rightarrow> u32 \<Rightarrow> u32 \<Rightarrow> string \<Rightarrow> nat \<Rightarrow> finder \<Rightarrow> finder option" where
  "work_passes env fuel idx from to hashPrev 0 st = Some st"
| "work_passes env fuel idx from to hashPrev (Suc n) st =
     (case work_pass env fuel idx from to hashPrev st of
        Some (Continue st) \<Rightarrow> work_passes env fuel idx from to hashPrev n st
      | _ \<Rightarrow> None)"

text \<open>
  The retry at submission, lines 6008-6018:
  \<^verbatim>\<open>uint32_t waitforpeers = 50;\<close>
  \<^verbatim>\<open>while(!hasPeers() && waitforpeers) { MilliSleep(100); waitforpeers--; }\<close>.
\<close>

fun wait_for_peers :: "environment \<Rightarrow> nat \<Rightarrow> finder \<Rightarrow> finder" where
  "wait_for_peers env 0 st = st\<lparr>peer_probes := peer_probes st + 1\<rparr>"
| "wait_for_peers env (Suc waitforpeers) st =
     (let p = hasPeers env (peer_probes st);
          st = st\<lparr>peer_probes := peer_probes st + 1\<rparr>
      in if \<not> p then wait_for_peers env waitforpeers (st\<lparr>slept := slept st + 100\<rparr>)
         else st)"

text \<open>
  After the loop, lines 6003-6027: a null block ends the thread; without peers the
  worker retries and gives up if there are still none; otherwise it sets
  \<^verbatim>\<open>handler->found\<close>, stores the block and hands it to \<^verbatim>\<open>ProcessNewBlock\<close>.
\<close>

definition submit :: "environment \<Rightarrow> finder \<Rightarrow> finder" where
  "submit env st0 =
     (if IsNull (blk st0) then st0
      else
        (let p = hasPeers env (peer_probes st0);
             st = st0\<lparr>peer_probes := peer_probes st0 + 1\<rparr>
         in if \<not> p then
              (let st = wait_for_peers env 50 st;
                   q = hasPeers env (peer_probes st);
                   st = st\<lparr>peer_probes := peer_probes st + 1\<rparr>
               in if \<not> q then st
                  else st\<lparr>handler := (handler st)\<lparr>found := True, block := blk st\<rparr>,
                          submitted := Some (blk st)\<rparr>)
            else st\<lparr>handler := (handler st)\<lparr>found := True, block := blk st\<rparr>,
                    submitted := Some (blk st)\<rparr>))"

text \<open>
  The start of \<^verbatim>\<open>proofOfWorkFinder\<close>, lines 5774-5807.  \<^verbatim>\<open>chainparams\<close> is
  \<^verbatim>\<open>Params()\<close>, of which the worker uses the consensus part.  \<^verbatim>\<open>block.nNonce = from\<close>
  comes before the header object is copied into the 112-byte buffer, so the buffer
  holds \<open>from\<close> at bytes 108-111; \<open>bleheaders\<close> is the rest of the buffer as
  \<^verbatim>\<open>std::memcpy(bleheaders, &blockheader, 112)\<close> fills it.  Worker 0 reads the hash of
  the previous block (a string of 64 characters) unless the session is already stopped.
\<close>

definition start_finder :: "environment \<Rightarrow> u32 \<Rightarrow> CBlock \<Rightarrow> u8 list \<Rightarrow> u32 \<Rightarrow> MinerHandler \<Rightarrow> finder" where
  "start_finder env idx block0 bleheaders from h =
     \<lparr>chainparams = Params env,
      msgctx = BleMinerTransform1 (take 108 bleheaders @ le_bytes from),
      blk = block0\<lparr>nNonce := from\<rparr>,
      currenthash = replicate 32 0,
      chaintipblockhash = [],
      handler = h\<lparr>currentOffset := (currentOffset h)(unat idx := 0)\<rparr>,
      passes = 0, time_reads = 0, tip_reads = 0, peer_probes = 0, slept = 0,
      submitted = None\<rparr>"

definition start_hashPrev :: "u32 \<Rightarrow> CBlock \<Rightarrow> MinerHandler \<Rightarrow> string" where
  "start_hashPrev idx block0 h =
     (if idx = 0 \<and> \<not> interrupt h \<and> \<not> stop h then hashPrevBlock block0 else [])"

text \<open>\<^verbatim>\<open>void proofOfWorkFinder(uint32_t idx, CBlock block, uint32_t from, uint32_t to,\<close>
  \<^verbatim>\<open>MinerHandler* handler, uint32_t PAGE_SIZE_MINER)\<close>, lines 5773-6034; \<open>n\<close> bounds the
  passes of the work loop.\<close>

definition proofOfWorkFinder :: "environment \<Rightarrow> nat \<Rightarrow> nat \<Rightarrow> u32 \<Rightarrow> CBlock \<Rightarrow> u8 list \<Rightarrow> u32 \<Rightarrow> u32 \<Rightarrow> MinerHandler \<Rightarrow> finder option" where
  "proofOfWorkFinder env fuel n idx block0 bleheaders from to h =
     map_option (submit env)
       (work_loop env fuel idx from to (start_hashPrev idx block0 h) n
          (start_finder env idx block0 bleheaders from h))"

section \<open>The partition of the nonce space\<close>

text \<open>
  \<^verbatim>\<open>CreateAndProcessBlock\<close>, lines 5472-5477:

  \<^verbatim>\<open>uint32_t PAGE_SIZE_MINER = 0x100000000 / MAX_N_THREADS;\<close>
  \<^verbatim>\<open>... std::thread(proofOfWorkFinder, i, CBlock(block), i * PAGE_SIZE_MINER,\<close>
  \<^verbatim>\<open>                (i + 1) * PAGE_SIZE_MINER, &handler, PAGE_SIZE_MINER);\<close>

  The constant \<^verbatim>\<open>0x100000000\<close> does not fit 32 bits, so the division is a 64-bit
  division of \<open>2^32\<close> by the thread count; the quotient is then cut to the 32 bits of
  \<^verbatim>\<open>PAGE_SIZE_MINER\<close>.  The loop counter \<open>i\<close> and both products are \<^verbatim>\<open>uint32_t\<close>: they
  wrap around.
\<close>

definition PAGE_SIZE_MINER :: "u32 \<Rightarrow> u32" where
  "PAGE_SIZE_MINER MAX_N_THREADS = word_of_nat (2 ^ 32 div unat MAX_N_THREADS)"

definition thread_from :: "u32 \<Rightarrow> u32 \<Rightarrow> u32" where
  "thread_from MAX_N_THREADS i = i * PAGE_SIZE_MINER MAX_N_THREADS"

definition thread_to :: "u32 \<Rightarrow> u32 \<Rightarrow> u32" where
  "thread_to MAX_N_THREADS i = (i + 1) * PAGE_SIZE_MINER MAX_N_THREADS"

text \<open>
  The nonce \<open>x\<close> lies in the page of worker \<open>i\<close>: at or above its \<^verbatim>\<open>from\<close> and less
  than one page size further, counted without wrap-around.
\<close>

definition in_page :: "u32 \<Rightarrow> u32 \<Rightarrow> u32 \<Rightarrow> bool" where
  "in_page N i x \<longleftrightarrow>
     unat (thread_from N i) \<le> unat x \<and>
     unat x < unat (thread_from N i) + unat (PAGE_SIZE_MINER N)"

section \<open>The coordinator\<close>









text \<open>\<^verbatim>\<open>CBlock()\<close>, the null block.\<close>

definition CBlock_null :: CBlock where
  "CBlock_null = \<lparr>hashPrevBlock = replicate 64 CHR ''0'', nTime = 0, nBits = 0, nNonce = 0\<rparr>"





section \<open>Reference double SHA-256\<close>

text \<open>
  The reference the pipeline is compared with: SHA-256 as FIPS 180-4 states it, on byte
  strings, with no caching and no vector instruction.  The message is padded with the
  byte 0x80, zero bytes up to 56 modulo 64 and the bit length as a 64-bit big-endian
  number; it is cut into 64-byte blocks; each block is read as sixteen big-endian words,
  expanded to sixty-four by the message schedule and run through sixty-four rounds; the
  digest is the final state written big-endian.  The round constants of the standard are
  the words of \<open>K\<close>, the table of the program.
\<close>

type_synonym state8 = "u32 \<times> u32 \<times> u32 \<times> u32 \<times> u32 \<times> u32 \<times> u32 \<times> u32"

definition Ch :: "u32 \<Rightarrow> u32 \<Rightarrow> u32 \<Rightarrow> u32" where
  "Ch x y z = (x AND y) XOR (NOT x AND z)"

definition Maj :: "u32 \<Rightarrow> u32 \<Rightarrow> u32 \<Rightarrow> u32" where
  "Maj x y z = (x AND y) XOR (x AND z) XOR (y AND z)"

definition bsig0 :: "u32 \<Rightarrow> u32" where
  "bsig0 x = word_rotr 2 x XOR word_rotr 13 x XOR word_rotr 22 x"

definition bsig1 :: "u32 \<Rightarrow> u32" where
  "bsig1 x = word_rotr 6 x XOR word_rotr 11 x XOR word_rotr 25 x"

definition ssig0 :: "u32 \<Rightarrow> u32" where
  "ssig0 x = word_rotr 7 x XOR word_rotr 18 x XOR drop_bit 3 x"

definition ssig1 :: "u32 \<Rightarrow> u32" where
  "ssig1 x = word_rotr 17 x XOR word_rotr 19 x XOR drop_bit 10 x"

definition be32 :: "u8 \<Rightarrow> u8 \<Rightarrow> u8 \<Rightarrow> u8 \<Rightarrow> u32" where
  "be32 b0 b1 b2 b3 =
     push_bit 24 (ucast b0) OR push_bit 16 (ucast b1) OR push_bit 8 (ucast b2) OR ucast b3"

fun be_words :: "u8 list \<Rightarrow> u32 list" where
  "be_words (b0 # b1 # b2 # b3 # bs) = be32 b0 b1 b2 b3 # be_words bs"
| "be_words bs = []"

definition be_bytes :: "u32 \<Rightarrow> u8 list" where
  "be_bytes w = [ucast (drop_bit 24 w), ucast (drop_bit 16 w), ucast (drop_bit 8 w), ucast w]"

definition be64_bytes :: "64 word \<Rightarrow> u8 list" where
  "be64_bytes n =
     [ucast (drop_bit 56 n), ucast (drop_bit 48 n), ucast (drop_bit 40 n), ucast (drop_bit 32 n),
      ucast (drop_bit 24 n), ucast (drop_bit 16 n), ucast (drop_bit 8 n), ucast n]"

definition sha256_pad :: "u8 list \<Rightarrow> u8 list" where
  "sha256_pad msg =
     msg @ [0x80] @ replicate ((119 - length msg mod 64) mod 64) 0
         @ be64_bytes (word_of_nat (8 * length msg))"

primrec blocks64 :: "nat \<Rightarrow> u8 list \<Rightarrow> u8 list list" where
  "blocks64 0 bs = []"
| "blocks64 (Suc n) bs = take 64 bs # blocks64 n (drop 64 bs)"

definition schedule_step :: "u32 list \<Rightarrow> u32 list" where
  "schedule_step W =
     (let t = length W
      in W @ [ssig1 (W ! (t - 2)) + W ! (t - 7) + ssig0 (W ! (t - 15)) + W ! (t - 16)])"

definition schedule :: "u32 list \<Rightarrow> u32 list" where
  "schedule M = (schedule_step ^^ 48) M"

definition sha_round :: "u32 \<times> u32 \<Rightarrow> state8 \<Rightarrow> state8" where
  "sha_round kw s =
     (case kw of (k, w) \<Rightarrow> case s of (a, b, c, d, e, f, g, h) \<Rightarrow>
        let T1 = h + bsig1 e + Ch e f g + k + w;
            T2 = bsig0 a + Maj a b c
        in (T1 + T2, a, b, c, d + T1, e, f, g))"

definition add8 :: "state8 \<Rightarrow> state8 \<Rightarrow> state8" where
  "add8 s t =
     (case s of (a, b, c, d, e, f, g, h) \<Rightarrow> case t of (a', b', c', d', e', f', g', h') \<Rightarrow>
        (a + a', b + b', c + c', d + d', e + e', f + f', g + g', h + h'))"

definition compress :: "state8 \<Rightarrow> u32 list \<Rightarrow> state8" where
  "compress H M = add8 H (fold sha_round (zip K (schedule M)) H)"

definition sha256_H0 :: state8 where
  "sha256_H0 =
     (0x6a09e667, 0xbb67ae85, 0x3c6ef372, 0xa54ff53a,
      0x510e527f, 0x9b05688c, 0x1f83d9ab, 0x5be0cd19)"

definition state_bytes :: "state8 \<Rightarrow> u8 list" where
  "state_bytes s =
     (case s of (a, b, c, d, e, f, g, h) \<Rightarrow>
        be_bytes a @ be_bytes b @ be_bytes c @ be_bytes d @
        be_bytes e @ be_bytes f @ be_bytes g @ be_bytes h)"

definition sha256 :: "u8 list \<Rightarrow> u8 list" where
  "sha256 msg =
     (let p = sha256_pad msg
      in state_bytes (fold (\<lambda>blk H. compress H (be_words blk)) (blocks64 (length p div 64) p) sha256_H0))"

definition sha256d :: "u8 list \<Rightarrow> u8 list" where
  "sha256d msg = sha256 (sha256 msg)"

text \<open>
  The serialized header with nonce and time patched in: \<^verbatim>\<open>nTime\<close> is the little-endian
  word at bytes 100-103, \<^verbatim>\<open>nNonce\<close> the one at bytes 108-111 (lanes 1 and 3 of the
  sixteen bytes that \<^verbatim>\<open>BleMinerTransform1\<close> loads into \<^verbatim>\<open>val[4]\<close>).
\<close>

definition serialize :: "u8 list \<Rightarrow> u32 \<Rightarrow> u32 \<Rightarrow> u8 list" where
  "serialize H nonce time =
     take 100 H @ le_bytes time @ take 4 (drop 104 H) @ le_bytes nonce"

text \<open>The same patch on the cache: \<^verbatim>\<open>msgctx.val[4][1] = block.nTime\<close> in the worker, and
  the nonce counter \<^verbatim>\<open>val[4][3]\<close>.\<close>

definition set_nonce_time :: "u32 \<Rightarrow> u32 \<Rightarrow> uint32x4xN \<Rightarrow> uint32x4xN" where
  "set_nonce_time nonce time sm = sm(4 := set_lane3 nonce (set_lane1 time (sm 4)))"

text \<open>
  Two notations for the comparison: the state of the standard as the two state
  registers hold it (\<open>a, b, c, d\<close> in the first, \<open>e, f, g, h\<close> in the second), and four
  consecutive words of a sequence as a message register holds them.
\<close>

definition regs :: "state8 \<Rightarrow> uint32x4 \<times> uint32x4" where
  "regs s = (case s of (a, b, c, d, e, f, g, h) \<Rightarrow> ((a, b, c, d), (e, f, g, h)))"

definition quad :: "(nat \<Rightarrow> u32) \<Rightarrow> nat \<Rightarrow> uint32x4" where
  "quad w n = (w n, w (n + 1), w (n + 2), w (n + 3))"

section \<open>Lemmas: the partition\<close>

lemma PAGE_unat: 
  assumes "2 \<le> unat N" shows "unat (PAGE_SIZE_MINER N) = 2 ^ 32 div unat N"
proof -
  have "(2::nat) ^ 32 div unat N \<le> 2 ^ 32 div 2"
    using assms by (intro div_le_mono2) auto
  then have "(2::nat) ^ 32 div unat N < 2 ^ 32" by simp
  then show ?thesis
    unfolding PAGE_SIZE_MINER_def by (simp add: unat_of_nat)
qed

lemma PAGE_mult_le:
  assumes "2 \<le> unat N" shows "unat N * unat (PAGE_SIZE_MINER N) \<le> 2 ^ 32"
  using assms by (simp add: PAGE_unat)

lemma PAGE_pos:
  assumes "2 \<le> unat N" shows "0 < unat (PAGE_SIZE_MINER N)"
proof -
  have "unat N < 2 ^ 32" using unsigned_less [of N] by simp
  then have "1 \<le> (2::nat) ^ 32 div unat N"
    using assms by (simp add: Suc_le_eq div_greater_zero_iff)
  then show ?thesis using assms by (simp add: PAGE_unat)
qed

lemma thread_from_unat:
  assumes "2 \<le> unat N" "i < N"
  shows "unat (thread_from N i) = unat i * unat (PAGE_SIZE_MINER N)"
proof -
  have "unat i < unat N" using assms(2) by (simp add: word_less_nat_alt)
  then have "unat i * unat (PAGE_SIZE_MINER N) < unat N * unat (PAGE_SIZE_MINER N)"
    using PAGE_pos [OF assms(1)] by simp
  then have "unat i * unat (PAGE_SIZE_MINER N) < 2 ^ 32"
    using PAGE_mult_le [OF assms(1)] by (rule less_le_trans)
  then show ?thesis
    unfolding thread_from_def by (simp add: unat_mult_lem [THEN iffD1])
qed

lemma in_page_iff:
  assumes "2 \<le> unat N" "i < N"
  shows "in_page N i x \<longleftrightarrow> unat x div unat (PAGE_SIZE_MINER N) = unat i"
proof -
  let ?P = "unat (PAGE_SIZE_MINER N)"
  have P: "0 < ?P" by (rule PAGE_pos [OF assms(1)])
  have "in_page N i x \<longleftrightarrow> unat i * ?P \<le> unat x \<and> unat x < unat i * ?P + ?P"
    by (simp add: in_page_def thread_from_unat [OF assms])
  also have "\<dots> \<longleftrightarrow> unat x div ?P = unat i"
    using P by (metis div_nat_eqI mult.commute mult_Suc_right add.commute dividend_less_div_times  div_times_less_eq_dividend)
  finally show ?thesis .
qed

lemma thread_to_eq: "thread_to N i = thread_from N i + PAGE_SIZE_MINER N"
  by (simp add: thread_to_def thread_from_def distrib_right)

lemma covered_iff:
  assumes "2 \<le> unat N"
  shows "(\<exists>i. i < N \<and> in_page N i x) \<longleftrightarrow> unat x < unat N * unat (PAGE_SIZE_MINER N)"
proof
  let ?P = "unat (PAGE_SIZE_MINER N)"
  have P: "0 < ?P" by (rule PAGE_pos [OF assms])
  {
    assume "\<exists>i. i < N \<and> in_page N i x"
    then obtain i where i: "i < N" "in_page N i x" by blast
    from i have "unat x div ?P = unat i" by (simp add: in_page_iff [OF assms])
    moreover have "unat i < unat N" using i(1) by (simp add: word_less_nat_alt)
    ultimately have "unat x div ?P < unat N" by simp
    then show "unat x < unat N * ?P" using P by (simp add: div_less_iff_less_mult)
  }
  {
    assume a: "unat x < unat N * ?P"
    then have d: "unat x div ?P < unat N" using P by (simp add: div_less_iff_less_mult)
    define i :: u32 where "i = word_of_nat (unat x div ?P)"
    have "unat N < 2 ^ 32" using unsigned_less [of N] by simp
    with d have ui: "unat i = unat x div ?P" by (simp add: i_def unat_of_nat)
    with d have "i < N" by (simp add: word_less_nat_alt)
    moreover from this ui have "in_page N i x" by (simp add: in_page_iff [OF assms])
    ultimately show "\<exists>i. i < N \<and> in_page N i x" by blast
  }
qed

lemma in_page_unique:
  assumes "2 \<le> unat N" "i < N" "j < N" "in_page N i x" "in_page N j x"
  shows "i = j"
proof -
  have "unat i = unat j"
    using assms by (simp add: in_page_iff)
  then show ?thesis by (simp add: word_unat_eq_iff)
qed

lemma tiles_iff_dvd:
  assumes "2 \<le> unat N"
  shows "unat N * unat (PAGE_SIZE_MINER N) = 2 ^ 32 \<longleftrightarrow> unat N dvd 2 ^ 32"
  unfolding PAGE_unat [OF assms] by (metis dvd_mult_div_cancel dvd_triv_left)

section \<open>Bytes, words and the number of a digest\<close>

lemma bytes_le_le32: "bytes_le (le32 a b c d) = (a, b, c, d)"
  unfolding bytes_le_def le32_def
  apply simp
  apply (intro conjI; rule bit_word_eqI)
  apply (auto simp add: bit_simps dest: bit_imp_le_length)
  done

lemma le32_bytes_le: "bytes_le w = (a, b, c, d) \<Longrightarrow> le32 a b c d = w"
  unfolding bytes_le_def le32_def
  apply (rule bit_word_eqI)
  apply (auto simp add: bit_simps)
  subgoal for n by (cases "n < 24") (simp_all add: not_less)
  done

lemma vreinterpretq_u8_u32_inverse [simp]:
  "vreinterpretq_u8_u32 (vreinterpretq_u32_u8 v) = v"
  by (cases v rule: prod_cases4; clarsimp simp add: vreinterpretq_u8_u32_def vreinterpretq_u32_u8_def bytes_le_le32 split: prod.splits)


lemma be_bytes_le: "vec_bytes (vrev32q_u8 (vreinterpretq_u8_u32 (a, b, c, d))) = be_bytes a @ be_bytes b @ be_bytes c @ be_bytes d"
  by (simp add: vec_bytes_def vrev32q_u8_def vreinterpretq_u8_u32_def bytes_le_def rev4_def be_bytes_def)

lemma hash_bytes_state_bytes:
  "hash_bytes (a, b, c, d) (e, f, g, h) = state_bytes (a, b, c, d, e, f, g, h)"
  by (simp add: hash_bytes_def memcpy32_def bswap_vec_def be_bytes_le state_bytes_def)

lemma be32_le32: "be32 b0 b1 b2 b3 = le32 b3 b2 b1 b0"
  by (simp add: be32_def le32_def or.commute or.left_commute)

lemma be32_be_bytes: "be_bytes w = [b0, b1, b2, b3] \<Longrightarrow> be32 b0 b1 b2 b3 = w"
  unfolding be32_le32 by (rule le32_bytes_le) (simp add: be_bytes_def bytes_le_def)

lemma length_be_bytes [simp]: "length (be_bytes w) = 4"
  by (simp add: be_bytes_def)



text \<open>Without a limit below \<open>2^224\<close> the last word of a passing digest need not be
  zero: the bits \<open>0x207fffff\<close> and the digest of number \<open>2^224\<close>, under a limit of
  \<open>2^255\<close>.\<close>

lemma passing_digest_above_2_224:
  "CheckProofOfWork (hash_bytes (0, 0, 0, 0) (0, 0, 0, 0x01000000)) 0x207fffff \<lparr>powLimit = 2 ^ 255\<rparr>
   \<and> lane3 (0, 0, 0, 0x01000000 :: u32) \<noteq> 0"
  by (simp add: CheckProofOfWork_def hash_bytes_state_bytes state_bytes_def be_bytes_def
      uint256_value_def compact_negative_def compact_target_def compact_overflow_def
      compact_size_def compact_word_def lane3_def)

section \<open>One pass of the work loop\<close>

lemma set_lane3_simps [simp]:
  "lane3 (set_lane3 x v) = x" "lane1 (set_lane3 x v) = lane1 v"
  "lane3 (set_lane1 y v) = lane3 v" "lane1 (set_lane1 y v) = y"
  "set_lane3 x (set_lane3 x' v) = set_lane3 x v"
  by (cases v rule: prod_cases4; simp add: lane3_def lane1_def set_lane3_def set_lane1_def)+

lemma BleMiner3Way_4: "BleMiner3Way m 4 = set_lane3 (lane3 (m 4) + 3) (m 4)"
  by (simp add: BleMiner3Way_def Let_def inc_nonce_def add.commute)

lemma BleMiner3Way_frame: "i \<notin> {4, 6, 7, 8, 9, 10, 11} \<Longrightarrow> BleMiner3Way m i = m i"
  by (simp add: BleMiner3Way_def Let_def inc_nonce_def)

lemma BleMiner3Way_counter: "lane3 (BleMiner3Way m 4) = lane3 (m 4) + 3"
  by (simp add: BleMiner3Way_4)

lemma BleMiner3Way_time: "lane1 (BleMiner3Way m 4) = lane1 (m 4)"
  by (simp add: BleMiner3Way_4)

lemma test_lane_Continue:
  assumes "test_lane lo hi back st = Continue st'"
  shows "handler st' = handler st \<and> blk st' = blk st \<and> passes st' = passes st
       \<and> time_reads st' = time_reads st \<and> tip_reads st' = tip_reads st
       \<and> peer_probes st' = peer_probes st \<and> slept st' = slept st
       \<and> submitted st' = submitted st \<and> chainparams st' = chainparams st \<and> chaintipblockhash st' = chaintipblockhash st
       \<and> (\<forall>i. i \<noteq> lo \<and> i \<noteq> hi \<longrightarrow> msgctx st' i = msgctx st i)"
  using assms by (auto simp add: test_lane_def Let_def split: if_splits)

lemma test_lane_Break:
  assumes "test_lane lo hi back st = Break st'" "lo \<noteq> hi" "lo \<noteq> 4" "hi \<noteq> 4"
  shows "quick_filter (msgctx st hi)
       \<and> CheckProofOfWork (hash_bytes (msgctx st lo) (msgctx st hi)) (nBits (blk st)) (chainparams st)
       \<and> currenthash st' = hash_bytes (msgctx st lo) (msgctx st hi)
       \<and> blk st' = (blk st)\<lparr>nNonce := lane3 (msgctx st 4) - back\<rparr>
       \<and> handler st' = (handler st)\<lparr>stop := True\<rparr>
       \<and> passes st' = passes st \<and> time_reads st' = time_reads st \<and> tip_reads st' = tip_reads st
       \<and> peer_probes st' = peer_probes st \<and> slept st' = slept st
       \<and> submitted st' = submitted st \<and> chainparams st' = chainparams st
       \<and> (\<forall>i. i \<noteq> lo \<and> i \<noteq> hi \<longrightarrow> msgctx st' i = msgctx st i)"
  using assms by (auto simp add: test_lane_def Let_def quick_filter_def hash_bytes_def split: if_splits)

lemma test_lane_miss:
  assumes "\<not> (quick_filter (msgctx st hi) \<and> CheckProofOfWork (hash_bytes (msgctx st lo) (msgctx st hi)) (nBits (blk st)) (chainparams st))"
    "lo \<noteq> hi"
  shows "\<exists>st'. test_lane lo hi back st = Continue st'"
  using assms by (auto simp add: test_lane_def Let_def quick_filter_def hash_bytes_def split: if_splits)

lemma test_lane_hit:
  assumes "quick_filter (msgctx st hi)"
    and "CheckProofOfWork (hash_bytes (msgctx st lo) (msgctx st hi)) (nBits (blk st)) (chainparams st)"
    and "lo \<noteq> hi"
  shows "\<exists>st'. test_lane lo hi back st = Break st'"
  using assms by (auto simp add: test_lane_def Let_def quick_filter_def hash_bytes_def)

lemma test_lanes_Continue:
  assumes "test_lanes st = Continue st'"
  shows "handler st' = handler st \<and> blk st' = blk st \<and> passes st' = passes st
       \<and> time_reads st' = time_reads st \<and> tip_reads st' = tip_reads st
       \<and> peer_probes st' = peer_probes st \<and> slept st' = slept st
       \<and> submitted st' = submitted st \<and> chainparams st' = chainparams st \<and> chaintipblockhash st' = chaintipblockhash st
       \<and> (\<forall>i. i \<notin> {6, 7, 8, 9, 10, 11} \<longrightarrow> msgctx st' i = msgctx st i)"
proof -
  from assms obtain s1 s2 where
    1: "test_lane 6 7 3 st = Continue s1" and 2: "test_lane 8 9 2 s1 = Continue s2"
    and 3: "test_lane 10 11 1 s2 = Continue st'"
    by (auto simp add: test_lanes_def split: flow.splits)
  from test_lane_Continue [OF 1] test_lane_Continue [OF 2] test_lane_Continue [OF 3]
  show ?thesis by simp
qed

lemma test_lanes_Break:
  assumes "test_lanes st = Break st'"
  shows "\<exists>lo hi back. (lo, hi, back) \<in> {(6, 7, 3), (8, 9, 2), (10, 11, 1)}
       \<and> quick_filter (msgctx st hi)
       \<and> CheckProofOfWork (hash_bytes (msgctx st lo) (msgctx st hi)) (nBits (blk st)) (chainparams st)
       \<and> currenthash st' = hash_bytes (msgctx st lo) (msgctx st hi)
       \<and> blk st' = (blk st)\<lparr>nNonce := lane3 (msgctx st 4) - back\<rparr>
       \<and> handler st' = (handler st)\<lparr>stop := True\<rparr>
       \<and> passes st' = passes st \<and> time_reads st' = time_reads st
       \<and> submitted st' = submitted st \<and> chainparams st' = chainparams st
       \<and> (\<forall>i. i \<notin> {6, 7, 8, 9, 10, 11} \<longrightarrow> msgctx st' i = msgctx st i)"
proof (cases "test_lane 6 7 3 st")
  case (Break s1)
  with assms have e: "s1 = st'" by (simp add: test_lanes_def)
  from test_lane_Break [OF Break] show ?thesis
    unfolding e by (intro exI [of _ 6] exI [of _ 7] exI [of _ 3]) simp
next
  case c1: (Continue s1)
  note f1 = test_lane_Continue [OF c1]
  show ?thesis
  proof (cases "test_lane 8 9 2 s1")
    case (Break s2)
    with assms c1 have e: "s2 = st'" by (simp add: test_lanes_def)
    from test_lane_Break [OF Break] f1 show ?thesis
      unfolding e by (intro exI [of _ 8] exI [of _ 9] exI [of _ 2]) simp
  next
    case c2: (Continue s2)
    note f2 = test_lane_Continue [OF c2]
    from assms c1 c2 have b: "test_lane 10 11 1 s2 = Break st'" by (simp add: test_lanes_def)
    from test_lane_Break [OF b] f1 f2 show ?thesis
      by (intro exI [of _ 10] exI [of _ 11] exI [of _ 1]) simp
  qed
qed

lemma test_lanes_miss:
  assumes "\<not> (quick_filter (msgctx st 7) \<and> CheckProofOfWork (hash_bytes (msgctx st 6) (msgctx st 7)) (nBits (blk st)) (chainparams st))"
    and "\<not> (quick_filter (msgctx st 9) \<and> CheckProofOfWork (hash_bytes (msgctx st 8) (msgctx st 9)) (nBits (blk st)) (chainparams st))"
    and "\<not> (quick_filter (msgctx st 11) \<and> CheckProofOfWork (hash_bytes (msgctx st 10) (msgctx st 11)) (nBits (blk st)) (chainparams st))"
  shows "\<exists>st'. test_lanes st = Continue st'"
proof -
  from test_lane_miss [OF assms(1)] obtain s1 where 1: "test_lane 6 7 3 st = Continue s1" by auto
  note f1 = test_lane_Continue [OF 1]
  from assms(2) f1 have "\<not> (quick_filter (msgctx s1 9) \<and> CheckProofOfWork (hash_bytes (msgctx s1 8) (msgctx s1 9)) (nBits (blk s1)) (chainparams s1))"
    by simp
  from test_lane_miss [OF this] obtain s2 where 2: "test_lane 8 9 2 s1 = Continue s2" by auto
  note f2 = test_lane_Continue [OF 2]
  from assms(3) f1 f2 have "\<not> (quick_filter (msgctx s2 11) \<and> CheckProofOfWork (hash_bytes (msgctx s2 10) (msgctx s2 11)) (nBits (blk s2)) (chainparams s2))"
    by simp
  from test_lane_miss [OF this] obtain s3 where 3: "test_lane 10 11 1 s2 = Continue s3" by auto
  from 1 2 3 show ?thesis by (simp add: test_lanes_def)
qed

lemma poll_tip_frame:
  "poll_tip env n st = Some st' \<Longrightarrow>
     msgctx st' = msgctx st \<and> blk st' = blk st \<and> handler st' = handler st
     \<and> currenthash st' = currenthash st \<and> passes st' = passes st
     \<and> time_reads st' = time_reads st \<and> peer_probes st' = peer_probes st
     \<and> submitted st' = submitted st \<and> chainparams st' = chainparams st"
proof (induction n arbitrary: st)
  case 0
  then show ?case by simp
next
  case (Suc n)
  show ?case
  proof (cases "(chaintipblockhash st \<noteq> chain_tip env (tip_reads st) \<or> length (chaintipblockhash st) < 64)
            \<and> \<not> stop (handler st) \<and> \<not> interrupt (handler st)")
    case True
    with Suc.prems have "poll_tip env n
                (st\<lparr>tip_reads := tip_reads st + 1, slept := slept st + 5,
                    chaintipblockhash := chain_tip env (tip_reads st + 1),
                    tip_reads := tip_reads st + 1 + 1\<rparr>) = Some st'"
      by (simp add: Let_def)
    from Suc.IH [OF this] show ?thesis by simp
  next
    case False
    with Suc.prems show ?thesis by (auto simp add: Let_def)
  qed
qed

lemma housekeeping_frame:
  assumes "housekeeping env fuel idx from to hp st = Some st'"
  shows "(\<forall>i. i \<noteq> 4 \<longrightarrow> msgctx st' i = msgctx st i)
       \<and> lane3 (msgctx st' 4) = lane3 (msgctx st 4)
       \<and> currenthash st' = currenthash st \<and> passes st' = passes st
       \<and> time_reads st' = time_reads st + 1 \<and> peer_probes st' = peer_probes st
       \<and> submitted st' = submitted st \<and> chainparams st' = chainparams st
       \<and> nBits (blk st') \<in> {nBits (blk st), 0}"
proof (cases "idx = 0")
  case False
  with assms show ?thesis by (auto simp add: housekeeping_def Let_def)
next
  case True
  with assms obtain s1 where p: "poll_tip env fuel (
      (if interrupt (handler st) then
         st\<lparr>blk := (blk st)\<lparr>nTime := GetAdjustedTime env (time_reads st)\<rparr>,
            time_reads := time_reads st + 1,
            msgctx := (msgctx st)(4 := set_lane1 (GetAdjustedTime env (time_reads st)) (msgctx st 4)),
            handler := (handler st)\<lparr>stop := True\<rparr>\<rparr>
       else st\<lparr>blk := (blk st)\<lparr>nTime := GetAdjustedTime env (time_reads st)\<rparr>,
            time_reads := time_reads st + 1,
            msgctx := (msgctx st)(4 := set_lane1 (GetAdjustedTime env (time_reads st)) (msgctx st 4))\<rparr>)
      \<lparr>slept := slept st + 5\<rparr>) = Some s1"
    by (auto simp add: housekeeping_def Let_def split: option.splits if_splits)
  note f = poll_tip_frame [OF p]
  from assms True p have "st' = (let s2 = (if chaintipblockhash s1 \<noteq> hp
                             then s1\<lparr>handler := (handler s1)\<lparr>stop := True\<rparr>\<rparr> else s1)
                   in (if nNonce (blk s2) \<ge> to \<or> nNonce (blk s2) < from
                             then s2\<lparr>handler := (handler s2)\<lparr>stop := True\<rparr>,
                                     slept := slept s2 + 10,
                                     blk := SetNull (blk s2)\<rparr>
                             else s2))"
    by (auto simp add: housekeeping_def Let_def split: option.splits if_splits)
  with f show ?thesis
    by (auto simp add: Let_def SetNull_def split: if_splits)
qed

lemma work_pass_Continue:
  assumes "work_pass env fuel idx from to hp st = Some (Continue st')"
  shows "lane3 (msgctx st' 4) = lane3 (msgctx st 4) + 3
       \<and> passes st' = passes st + 1 \<and> submitted st' = submitted st \<and> chainparams st' = chainparams st
       \<and> peer_probes st' = peer_probes st
       \<and> \<not> stop (other_threads env (passes st) (handler st))
       \<and> (if unat (lane3 (msgctx st 4) + 3) mod 3000000 = 0
           then time_reads st' = time_reads st + 1
           else time_reads st' = time_reads st \<and> blk st' = blk st
                \<and> lane1 (msgctx st' 4) = lane1 (msgctx st 4))"
proof -
  let ?s = "st\<lparr>handler := other_threads env (passes st) (handler st), passes := passes st + 1\<rparr>"
  from assms have ns: "\<not> stop (other_threads env (passes st) (handler st))"
    by (auto simp add: work_pass_def Let_def split: if_splits)
  with assms obtain s1 where t: "test_lanes (?s\<lparr>msgctx := BleMiner3Way (msgctx ?s)\<rparr>) = Continue s1"
    by (auto simp add: work_pass_def Let_def split: if_splits flow.splits)
  note f = test_lanes_Continue [OF t]
  from f have c: "lane3 (msgctx s1 4) = lane3 (msgctx st 4) + 3" "lane1 (msgctx s1 4) = lane1 (msgctx st 4)"
    by (simp_all add: BleMiner3Way_4)
  show ?thesis
  proof (cases "housekeeping_due (msgctx s1)")
    case True
    with assms ns t have "housekeeping env fuel idx from to hp s1 = Some st'"
      by (auto simp add: work_pass_def Let_def split: if_splits flow.splits)
    from housekeeping_frame [OF this] f c True ns show ?thesis
      by (simp add: housekeeping_due_def)
  next
    case False
    with assms ns t have "s1 = st'"
      by (auto simp add: work_pass_def Let_def split: if_splits flow.splits)
    with f c False ns show ?thesis
      by (simp add: housekeeping_due_def)
  qed
qed

lemma work_pass_Break:
  assumes "work_pass env fuel idx from to hp st = Some (Break st')"
  shows "submitted st' = submitted st \<and> chainparams st' = chainparams st \<and>
         (IsNull (blk st') \<or>
          (\<exists>lo hi back. (lo, hi, back) \<in> {(6, 7, 3), (8, 9, 2), (10, 11, 1)}
             \<and> quick_filter (BleMiner3Way (msgctx st) hi)
             \<and> CheckProofOfWork (hash_bytes (BleMiner3Way (msgctx st) lo) (BleMiner3Way (msgctx st) hi)) (nBits (blk st)) (chainparams st)
             \<and> currenthash st' = hash_bytes (BleMiner3Way (msgctx st) lo) (BleMiner3Way (msgctx st) hi)
             \<and> blk st' = (blk st)\<lparr>nNonce := lane3 (msgctx st 4) + 3 - back\<rparr>
             \<and> stop (handler st')))"
proof (cases "stop (other_threads env (passes st) (handler st))")
  case True
  with assms show ?thesis
    by (auto simp add: work_pass_def Let_def IsNull_def SetNull_def)
next
  case False
  let ?s = "st\<lparr>handler := other_threads env (passes st) (handler st), passes := passes st + 1\<rparr>"
  show ?thesis
  proof (cases "test_lanes (?s\<lparr>msgctx := BleMiner3Way (msgctx ?s)\<rparr>)")
    case (Break s1)
    with assms False have e: "s1 = st'"
      by (auto simp add: work_pass_def Let_def)
    from test_lanes_Break [OF Break] obtain lo hi bk where
      m: "(lo, hi, bk) \<in> {(6, 7, 3), (8, 9, 2), (10, 11, 1 :: u32)}"
      and q: "quick_filter (BleMiner3Way (msgctx st) hi)"
      and c: "CheckProofOfWork (hash_bytes (BleMiner3Way (msgctx st) lo) (BleMiner3Way (msgctx st) hi)) (nBits (blk st)) (chainparams st)"
      and h: "currenthash s1 = hash_bytes (BleMiner3Way (msgctx st) lo) (BleMiner3Way (msgctx st) hi)"
      and b: "blk s1 = (blk st)\<lparr>nNonce := lane3 (BleMiner3Way (msgctx st) 4) - bk\<rparr>"
      and s: "handler s1 = (other_threads env (passes st) (handler st))\<lparr>stop := True\<rparr>"
      and u: "submitted s1 = submitted st"
      and cp: "chainparams s1 = chainparams st"
      by simp blast
    have "\<exists>lo hi back. (lo, hi, back) \<in> {(6, 7, 3), (8, 9, 2), (10, 11, 1)}
             \<and> quick_filter (BleMiner3Way (msgctx st) hi)
             \<and> CheckProofOfWork (hash_bytes (BleMiner3Way (msgctx st) lo) (BleMiner3Way (msgctx st) hi)) (nBits (blk st)) (chainparams st)
             \<and> currenthash st' = hash_bytes (BleMiner3Way (msgctx st) lo) (BleMiner3Way (msgctx st) hi)
             \<and> blk st' = (blk st)\<lparr>nNonce := lane3 (msgctx st 4) + 3 - back\<rparr>
             \<and> stop (handler st')"
      using m q c h b s unfolding e [symmetric]
      by (intro exI [of _ lo] exI [of _ hi] exI [of _ bk]) (simp add: BleMiner3Way_4)
    with u cp e show ?thesis by simp
  next
    case (Continue s1)
    with assms False show ?thesis
      by (auto simp add: work_pass_def Let_def split: if_splits)
  qed
qed

lemma work_passes_counter:
  "work_passes env fuel idx from to hp n st = Some st' \<Longrightarrow>
     lane3 (msgctx st' 4) = lane3 (msgctx st 4) + 3 * word_of_nat n
     \<and> passes st' = passes st + n \<and> submitted st' = submitted st \<and> chainparams st' = chainparams st"
proof (induction n arbitrary: st)
  case 0
  then show ?case by simp
next
  case (Suc n)
  from Suc.prems obtain s1 where
    1: "work_pass env fuel idx from to hp st = Some (Continue s1)"
    and 2: "work_passes env fuel idx from to hp n s1 = Some st'"
    by (auto split: option.splits flow.splits)
  from work_pass_Continue [OF 1] Suc.IH [OF 2] show ?case
    by (simp add: algebra_simps)
qed

lemma not_due_misaligned:
  assumes "unat from mod 3 \<noteq> 0" "unat from + 3 * Suc k < 2 ^ 32"
  shows "unat (from + 3 * word_of_nat k + 3 :: u32) mod 3000000 \<noteq> 0"
proof -
  have "from + 3 * word_of_nat k + 3 = (word_of_nat (unat from + 3 * Suc k) :: u32)"
    by simp
  then have u: "unat (from + 3 * word_of_nat k + 3 :: u32) = unat from + 3 * Suc k"
    using assms(2) by (simp only: unat_of_nat) simp
  have n3: "\<not> 3 dvd (unat from + 3 * Suc k)"
    using assms(1) by presburger
  have "\<not> 3000000 dvd (unat from + 3 * Suc k)"
  proof
    assume "3000000 dvd (unat from + 3 * Suc k)"
    moreover have "(3::nat) dvd 3000000" by simp
    ultimately have "3 dvd (unat from + 3 * Suc k)" by (rule dvd_trans [rotated])
    with n3 show False by simp
  qed
  then show ?thesis
    unfolding u mod_eq_0_iff_dvd by assumption
qed

section \<open>The loop and the submission\<close>

lemma wait_for_peers_none:
  "(\<forall>k. k \<le> n \<longrightarrow> \<not> hasPeers env (peer_probes st + k)) \<Longrightarrow>
     wait_for_peers env n st = st\<lparr>peer_probes := peer_probes st + n + 1, slept := slept st + 100 * n\<rparr>"
proof (induction n arbitrary: st)
  case 0
  then show ?case by simp
next
  case (Suc n)
  from Suc.prems have 0: "\<not> hasPeers env (peer_probes st)" by (metis add.right_neutral le0)
  let ?s = "st\<lparr>peer_probes := peer_probes st + 1, slept := slept st + 100\<rparr>"
  have "\<forall>k. k \<le> n \<longrightarrow> \<not> hasPeers env (peer_probes ?s + k)"
  proof (intro allI impI)
    fix k assume "k \<le> n"
    then have "Suc k \<le> Suc n" by simp
    with Suc.prems have "\<not> hasPeers env (peer_probes st + Suc k)" by blast
    then show "\<not> hasPeers env (peer_probes ?s + k)" by simp
  qed
  from Suc.IH [OF this] 0 show ?case by (simp add: Let_def)
qed

lemma submit_no_peers:
  assumes "\<not> IsNull (blk st)" and "\<forall>k. k \<le> 52 \<longrightarrow> \<not> hasPeers env (peer_probes st + k)"
  shows "submit env st = st\<lparr>peer_probes := peer_probes st + 53, slept := slept st + 5000\<rparr>"
proof -
  from assms(2) have 0: "\<not> hasPeers env (peer_probes st)" by (metis add.right_neutral le0)
  let ?s = "st\<lparr>peer_probes := peer_probes st + 1\<rparr>"
  have "\<forall>k. k \<le> 50 \<longrightarrow> \<not> hasPeers env (peer_probes ?s + k)"
  proof (intro allI impI)
    fix k :: nat assume "k \<le> 50"
    then have "Suc k \<le> 52" by simp
    with assms(2) have "\<not> hasPeers env (peer_probes st + Suc k)" by blast
    then show "\<not> hasPeers env (peer_probes ?s + k)" by simp
  qed
  from wait_for_peers_none [OF this]
  have w: "wait_for_peers env 50 ?s = st\<lparr>peer_probes := peer_probes st + 52, slept := slept st + 5000\<rparr>"
    by simp
  from assms(2) have l: "\<not> hasPeers env (peer_probes st + 52)" by blast
  from assms(1) 0 l show ?thesis
    unfolding submit_def Let_def w by simp
qed

lemma submit_frame:
  "blk (submit env st) = blk st \<and> currenthash (submit env st) = currenthash st
   \<and> msgctx (submit env st) = msgctx st
   \<and> stop (handler (submit env st)) = stop (handler st)"
proof -
  have w: "blk (wait_for_peers env n s) = blk s \<and> currenthash (wait_for_peers env n s) = currenthash s
     \<and> msgctx (wait_for_peers env n s) = msgctx s \<and> handler (wait_for_peers env n s) = handler s
     \<and> submitted (wait_for_peers env n s) = submitted s" for n s
    by (induction n arbitrary: s) (simp_all add: Let_def)
  show ?thesis
    by (simp add: submit_def Let_def w)
qed

lemma submit_submitted:
  "submitted (submit env st) = submitted st \<and> handler (submit env st) = handler st
   \<or> \<not> IsNull (blk st) \<and> submitted (submit env st) = Some (blk st)
     \<and> handler (submit env st) = (handler st)\<lparr>found := True, block := blk st\<rparr>"
proof -
  have w: "blk (wait_for_peers env n s) = blk s \<and> handler (wait_for_peers env n s) = handler s
     \<and> submitted (wait_for_peers env n s) = submitted s" for n s
    by (induction n arbitrary: s) (simp_all add: Let_def)
  show ?thesis
    by (simp add: submit_def Let_def w)
qed

lemma CheckProofOfWork_nonnull: "CheckProofOfWork h b p \<Longrightarrow> b \<noteq> 0"
  by (auto simp add: CheckProofOfWork_def compact_target_def compact_size_def compact_word_def)

lemma work_loop_result:
  "work_loop env fuel idx from to hp n st = Some st' \<Longrightarrow>
     submitted st' = submitted st \<and> chainparams st' = chainparams st \<and>
     (IsNull (blk st') \<or> CheckProofOfWork (currenthash st') (nBits (blk st')) (chainparams st') \<and> stop (handler st'))"
proof (induction n arbitrary: st)
  case 0
  then show ?case by simp
next
  case (Suc n)
  show ?case
  proof (cases "work_pass env fuel idx from to hp st")
    case None
    with Suc.prems show ?thesis by simp
  next
    case (Some f)
    show ?thesis
    proof (cases f)
      case (Continue s1)
      with Some Suc.prems have "work_loop env fuel idx from to hp n s1 = Some st'" by simp
      from Suc.IH [OF this] work_pass_Continue [OF Some [unfolded Continue]] show ?thesis
        by (elim conjE) (intro conjI, simp_all)
    next
      case (Break s1)
      with Some Suc.prems have e: "s1 = st'" by simp
      from work_pass_Break [OF Some [unfolded Break e]] show ?thesis
        by (elim conjE disjE exE) simp_all
    qed
  qed
qed

section \<open>Runs of the work loop\<close>

lemma compact_negative_fails: "compact_negative b \<Longrightarrow> \<not> CheckProofOfWork h b p"
  by (simp add: CheckProofOfWork_def)

lemma quiet_pass:
  assumes "idx \<noteq> 0" and "\<forall>k h. \<not> stop h \<longrightarrow> \<not> stop (other_threads env k h)"
    and "\<not> stop (handler st)" and "\<forall>h. \<not> CheckProofOfWork h (nBits (blk st)) (chainparams st)"
  shows "\<exists>st'. work_pass env fuel idx from to hp st = Some (Continue st')
            \<and> \<not> stop (handler st') \<and> nBits (blk st') = nBits (blk st)
            \<and> chainparams st' = chainparams st"
proof -
  let ?s = "st\<lparr>handler := other_threads env (passes st) (handler st), passes := passes st + 1\<rparr>"
  let ?t = "?s\<lparr>msgctx := BleMiner3Way (msgctx ?s)\<rparr>"
  from assms(2,3) have ns: "\<not> stop (other_threads env (passes st) (handler st))" by blast
  from assms(4) have "\<exists>s1. test_lanes ?t = Continue s1"
    by (intro test_lanes_miss) simp_all
  then obtain s1 where t: "test_lanes ?t = Continue s1" ..
  note f = test_lanes_Continue [OF t]
  show ?thesis
  proof (cases "housekeeping_due (msgctx s1)")
    case True
    have h: "housekeeping env fuel idx from to hp s1 =
       Some (s1\<lparr>blk := (blk s1)\<lparr>nTime := GetAdjustedTime env (time_reads s1)\<rparr>,
                time_reads := time_reads s1 + 1,
                msgctx := (msgctx s1)(4 := set_lane1 (GetAdjustedTime env (time_reads s1)) (msgctx s1 4))\<rparr>)"
      using assms(1) by (simp add: housekeeping_def Let_def)
    from ns t True f show ?thesis
      by (simp add: work_pass_def Let_def h)
  next
    case False
    from ns t False f show ?thesis
      by (simp add: work_pass_def Let_def)
  qed
qed

lemma quiet_run:
  assumes "idx \<noteq> 0" and "\<forall>k h. \<not> stop h \<longrightarrow> \<not> stop (other_threads env k h)"
  shows "\<not> stop (handler st) \<Longrightarrow> \<forall>h. \<not> CheckProofOfWork h (nBits (blk st)) (chainparams st) \<Longrightarrow>
         \<exists>st'. work_passes env fuel idx from to hp n st = Some st'"
proof (induction n arbitrary: st)
  case 0
  then show ?case by simp
next
  case (Suc n)
  from quiet_pass [OF assms Suc.prems] obtain s1 where
    1: "work_pass env fuel idx from to hp st = Some (Continue s1)"
    and 2: "\<not> stop (handler s1)" and 3: "nBits (blk s1) = nBits (blk st)"
    and 4: "chainparams s1 = chainparams st"
    by blast
  from Suc.prems(2) 3 4 have "\<forall>h. \<not> CheckProofOfWork h (nBits (blk s1)) (chainparams s1)" by simp
  from Suc.IH [OF 2 this] 1 show ?case by simp
qed

lemma unat_plus_3: "unat (c :: u32) + 3 < 2 ^ 32 \<Longrightarrow> unat (c + 3) = unat c + 3"
  by (simp add: unat_word_ariths)

lemma not_due_mod3: "unat (c :: u32) mod 3 \<noteq> 0 \<Longrightarrow> unat c mod 3000000 \<noteq> 0"
proof
  assume a: "unat c mod 3 \<noteq> 0" and "unat c mod 3000000 = 0"
  then have "3000000 dvd unat c" by (simp only: mod_eq_0_iff_dvd)
  moreover have "(3::nat) dvd 3000000" by simp
  ultimately have "3 dvd unat c" by (rule dvd_trans [rotated])
  with a show False by (simp add: mod_eq_0_iff_dvd)
qed

lemma misaligned_run:
  "work_passes env fuel idx from to hp n st = Some st' \<Longrightarrow>
   unat (lane3 (msgctx st 4)) mod 3 \<noteq> 0 \<Longrightarrow> unat (lane3 (msgctx st 4)) + 3 * n < 2 ^ 32 \<Longrightarrow>
   time_reads st' = time_reads st \<and> blk st' = blk st \<and> lane1 (msgctx st' 4) = lane1 (msgctx st 4)"
proof (induction n arbitrary: st)
  case 0
  then show ?case by simp
next
  case (Suc n)
  from Suc.prems(1) obtain s1 where
    1: "work_pass env fuel idx from to hp st = Some (Continue s1)"
    and 2: "work_passes env fuel idx from to hp n s1 = Some st'"
    by (auto split: option.splits flow.splits)
  note p = work_pass_Continue [OF 1]
  from Suc.prems(3) have u: "unat (lane3 (msgctx st 4) + 3) = unat (lane3 (msgctx st 4)) + 3"
    by (intro unat_plus_3) simp
  with Suc.prems(2) have m: "unat (lane3 (msgctx st 4) + 3) mod 3 \<noteq> 0" by simp
  then have nd: "unat (lane3 (msgctx st 4) + 3) mod 3000000 \<noteq> 0" by (rule not_due_mod3)
  from p nd have f: "lane3 (msgctx s1 4) = lane3 (msgctx st 4) + 3" "time_reads s1 = time_reads st"
    "blk s1 = blk st" "lane1 (msgctx s1 4) = lane1 (msgctx st 4)"
    by simp_all
  from m u Suc.prems(3) have "unat (lane3 (msgctx s1 4)) mod 3 \<noteq> 0"
    "unat (lane3 (msgctx s1 4)) + 3 * n < 2 ^ 32"
    unfolding f by simp_all
  from Suc.IH [OF 2 this] f show ?case by simp
qed

lemma le32_le_bytes:
  "le32 (ucast w) (ucast (drop_bit 8 w)) (ucast (drop_bit 16 w)) (ucast (drop_bit 24 w)) = w"
  by (rule le32_bytes_le) (simp add: bytes_le_def)

lemma BleMinerTransform1_4:
  "BleMinerTransform1 b 4 = vreinterpretq_u32_u8 (input32 b 6)"
  by (simp add: BleMinerTransform1_def Let_def)

lemma start_counter:
  assumes "length bleheaders = 112"
  shows "lane3 (msgctx (start_finder env idx block0 bleheaders from h) 4) = from"
proof -
  have l: "length (take 108 bleheaders) = 108" using assms by simp
  have n: "(take 108 bleheaders @ le_bytes from) ! (108 + k) = le_bytes from ! k" for k
    using l by (simp add: nth_append)
  have "lane3 (vreinterpretq_u32_u8 (input32 (take 108 bleheaders @ le_bytes from) 6)) =
        le32 (le_bytes from ! 0) (le_bytes from ! 1) (le_bytes from ! 2) (le_bytes from ! 3)"
    using n [of 0] n [of 1] n [of 2] n [of 3]
    by (simp add: input32_def vreinterpretq_u32_u8_def lane3_def)
  also have "\<dots> = from" by (simp add: le_bytes_def le32_le_bytes)
  finally show ?thesis by (simp add: start_finder_def BleMinerTransform1_4)
qed

section \<open>The waiting of the coordinator\<close>








section \<open>The three-lane hasher, lane by lane\<close>

lemma load_lane_simps [simp]:
  "STATE0 (load_lane S0 S1 M0 M1 M2 M3) = S0" "STATE1 (load_lane S0 S1 M0 M1 M2 M3) = S1"
  "MSG0 (load_lane S0 S1 M0 M1 M2 M3) = M0" "MSG1 (load_lane S0 S1 M0 M1 M2 M3) = M1"
  "MSG2 (load_lane S0 S1 M0 M1 M2 M3) = M2" "MSG3 (load_lane S0 S1 M0 M1 M2 M3) = M3"
  by (simp_all add: load_lane_def)

lemma inc_nonce_simps [simp]:
  "i \<noteq> 4 \<Longrightarrow> inc_nonce sm i = sm i"
  "inc_nonce sm 4 = set_lane3 (lane3 (sm 4) + 1) (sm 4)"
  by (simp_all add: inc_nonce_def)

lemma MSG3_rounds_1_12 [simp]: "MSG3 (rounds_1_12 L) = MSG3 L"
  by (simp add: rounds_1_12_def rounds_su0_def rounds_su1_def rounds_su2_def
      quad_su0_def quad_su1_def quad_su2_def Let_def)

lemma MSG3_transform3_lane [simp]:
  "MSG3 (transform3_lane p0 p1 pad2 pad3 i0 i1 L) = pad3"
  by (simp add: transform3_lane_def Let_def)

text \<open>Rounds 1-12 of Transform 2 as \<^verbatim>\<open>BleMiner3Way\<close> runs them, from the cache of
  \<^verbatim>\<open>BleMinerTransform1\<close>, are rounds 1-12 of the plain sequence.\<close>

lemma cached_rounds_1_12:
  "rounds_9_12_cached
     (STATE0 (rounds_fin1 (vld1q_K 4) (rounds_fin0 (vld1q_K 0) (load_lane S0 S1 M0 M1 X' P'))))
     (STATE1 (rounds_fin1 (vld1q_K 4) (rounds_fin0 (vld1q_K 0) (load_lane S0 S1 M0 M1 X' P'))))
     (vld1q_K 8)
     (sched_5_8 (sched_1_4 (load_lane a b (vsha256su0q_u32 M0 M1) M1 X P)))
   = rounds_1_12 (load_lane S0 S1 M0 M1 X P)"
  by (simp add: rounds_1_12_def rounds_su0_def rounds_su1_def rounds_su2_def
      quad_su0_def quad_su1_def quad_su2_def rounds_fin0_def rounds_fin1_def quad_fin_def
      rounds_9_12_cached_def sched_1_4_def sched_5_8_def load_lane_def Let_def)

lemma shared_TMP0: "MSG3 L = P \<Longrightarrow> quad_su3 (vaddq_u32 P KTMP) L = rounds_su3 KTMP L"
  by (simp add: rounds_su3_def)

lemma BleMiner_lane:
  "BleMiner c =
     (let A = sha256_rounds64 (load_lane (c 0) (c 1) (c 2) (c 3) (bswap_vec (c 4)) (c 5));
          A = sha256_rounds64
                (transform3_lane (c 0) (c 1) PADDING2A PADDING2B SHA256INIT0 SHA256INIT1 A)
      in (vaddq_u32 (STATE0 A) SHA256INIT0, vaddq_u32 (STATE1 A) SHA256INIT1))"
  by (simp add: BleMiner_def Let_def)

lemma BleMiner3Way_lanes:
  assumes c2: "m 2 = vsha256su0q_u32 M0 (m 3)"
    and c12: "m 12 = STATE0 (rounds_fin1 (vld1q_K 4) (rounds_fin0 (vld1q_K 0)
                 (load_lane (m 0) (m 1) M0 (m 3) X' P')))"
    and c13: "m 13 = STATE1 (rounds_fin1 (vld1q_K 4) (rounds_fin0 (vld1q_K 0)
                 (load_lane (m 0) (m 1) M0 (m 3) X' P')))"
  shows "(BleMiner3Way m 6, BleMiner3Way m 7) = BleMiner (m(2 := M0))"
    and "(BleMiner3Way m 8, BleMiner3Way m 9) = BleMiner ((inc_nonce m)(2 := M0))"
    and "(BleMiner3Way m 10, BleMiner3Way m 11) = BleMiner ((inc_nonce (inc_nonce m))(2 := M0))"
proof -
  have t2: "rounds_17_64 (quad_su3 (vaddq_u32 (m 5) (vld1q_K 12))
              (rounds_9_12_cached (m 12) (m 13) (vld1q_K 8)
                 (sched_5_8 (sched_1_4 (load_lane a b (m 2) (m 3) x (m 5))))))
            = sha256_rounds64 (load_lane (m 0) (m 1) M0 (m 3) x (m 5))" for a b x
    unfolding c2 c12 c13 cached_rounds_1_12 sha256_rounds64_def rounds_13_16_def
    by (simp add: shared_TMP0)
  have t3: "rounds_17_64 (quad_su3 (vaddq_u32 PADDING2B (vld1q_K 12))
              (rounds_1_12 (transform3_lane p0 p1 PADDING2A PADDING2B i0 i1 L)))
            = sha256_rounds64 (transform3_lane p0 p1 PADDING2A PADDING2B i0 i1 L)" for p0 p1 i0 i1 L
    unfolding sha256_rounds64_def rounds_13_16_def by (simp add: shared_TMP0)
  have s: "MSG3 (rounds_9_12_cached v12 v13 k (sched_5_8 (sched_1_4 L))) = MSG3 L" for v12 v13 k L
    by (simp add: rounds_9_12_cached_def sched_5_8_def sched_1_4_def Let_def)
  show "(BleMiner3Way m 6, BleMiner3Way m 7) = BleMiner (m(2 := M0))"
    by (simp add: BleMiner3Way_def BleMiner_lane Let_def s t2 t3)
  show "(BleMiner3Way m 8, BleMiner3Way m 9) = BleMiner ((inc_nonce m)(2 := M0))"
    by (simp add: BleMiner3Way_def BleMiner_lane Let_def s t2 t3)
  show "(BleMiner3Way m 10, BleMiner3Way m 11) = BleMiner ((inc_nonce (inc_nonce m))(2 := M0))"
    by (simp add: BleMiner3Way_def BleMiner_lane Let_def s t2 t3)
qed

section \<open>The caches and the one-lane hasher\<close>

lemma bswap_vec_reinterpret:
  "bswap_vec (vreinterpretq_u32_u8 v) = vreinterpretq_u32_u8 (vrev32q_u8 v)"
  by (simp add: bswap_vec_def)

lemma length_le_bytes [simp]: "length (le_bytes w) = 4"
  by (simp add: le_bytes_def)

lemma length_serialize [simp]: "length H = 112 \<Longrightarrow> length (serialize H N T) = 112"
  by (simp add: serialize_def)

lemma nth_serialize_low:
  "length H = 112 \<Longrightarrow> i < 100 \<Longrightarrow> serialize H N T ! i = H ! i"
  by (simp add: serialize_def nth_append)

lemma input32_serialize:
  assumes "length H = 112" and "k < 6"
  shows "input32 (serialize H N T) k = input32 H k"
proof -
  from assms(2) have "16 * k + 15 < 100" by simp
  then have "serialize H N T ! (16 * k + j) = H ! (16 * k + j)" if "j \<le> 15" for j
    using that by (intro nth_serialize_low [OF assms(1)]) simp
  from this [of 0] this [of 1] this [of 2] this [of 3] this [of 4] this [of 5] this [of 6]
    this [of 7] this [of 8] this [of 9] this [of 10] this [of 11] this [of 12] this [of 13]
    this [of 14] this [of 15]
  show ?thesis by (simp add: input32_def)
qed

lemma input32_serialize_6:
  assumes "length H = 112"
  shows "vreinterpretq_u32_u8 (input32 (serialize H N T) 6)
       = set_lane3 N (set_lane1 T (vreinterpretq_u32_u8 (input32 H 6)))"
proof -
  have a: "serialize H N T ! (96 + j) = H ! (96 + j)" if "j < 4" for j
    using that by (intro nth_serialize_low [OF assms]) simp
  have l: "length (take 100 H) = 100" using assms by simp
  have b: "serialize H N T ! (100 + j) = le_bytes T ! j" if "j < 4" for j
    using that l by (simp add: serialize_def nth_append)
  have c: "serialize H N T ! (104 + j) = H ! (104 + j)" if "j < 4" for j
    using that l assms by (simp add: serialize_def nth_append)
  have d: "serialize H N T ! (108 + j) = le_bytes N ! j" if "j < 4" for j
    using that l assms by (simp add: serialize_def nth_append)
  from a [of 0] a [of 1] a [of 2] a [of 3] b [of 0] b [of 1] b [of 2] b [of 3]
    c [of 0] c [of 1] c [of 2] c [of 3] d [of 0] d [of 1] d [of 2] d [of 3]
  show ?thesis
    by (simp add: input32_def vreinterpretq_u32_u8_def set_lane3_def set_lane1_def
        le_bytes_def le32_le_bytes)
qed

text \<open>\<^verbatim>\<open>BleMiner\<close> on a six-vector cache of a header is \<^verbatim>\<open>BleMiner_1way\<close> on the
  header.\<close>

lemma BleMiner_is_1way:
  assumes "c 0 = vaddq_u32 (STATE0 (sha256_rounds64 (load_lane SHA256INIT0 SHA256INIT1
                  (vreinterpretq_u32_u8 (vrev32q_u8 (input32 H 0)))
                  (vreinterpretq_u32_u8 (vrev32q_u8 (input32 H 1)))
                  (vreinterpretq_u32_u8 (vrev32q_u8 (input32 H 2)))
                  (vreinterpretq_u32_u8 (vrev32q_u8 (input32 H 3)))))) SHA256INIT0"
    and "c 1 = vaddq_u32 (STATE1 (sha256_rounds64 (load_lane SHA256INIT0 SHA256INIT1
                  (vreinterpretq_u32_u8 (vrev32q_u8 (input32 H 0)))
                  (vreinterpretq_u32_u8 (vrev32q_u8 (input32 H 1)))
                  (vreinterpretq_u32_u8 (vrev32q_u8 (input32 H 2)))
                  (vreinterpretq_u32_u8 (vrev32q_u8 (input32 H 3)))))) SHA256INIT1"
    and "c 2 = vreinterpretq_u32_u8 (vrev32q_u8 (input32 H 4))"
    and "c 3 = vreinterpretq_u32_u8 (vrev32q_u8 (input32 H 5))"
    and "c 4 = vreinterpretq_u32_u8 (input32 H 6)"
    and "c 5 = PADDING1"
  shows "BleMiner c = BleMiner_1way H"
  unfolding BleMiner_lane BleMiner_1way_def Let_def assms bswap_vec_reinterpret load_lane_simps
  by (rule refl)

lemma BleMinerTransform1_cache:
  "BleMinerTransform1 H 0 = vaddq_u32 (STATE0 (sha256_rounds64 (load_lane SHA256INIT0 SHA256INIT1
                  (vreinterpretq_u32_u8 (vrev32q_u8 (input32 H 0)))
                  (vreinterpretq_u32_u8 (vrev32q_u8 (input32 H 1)))
                  (vreinterpretq_u32_u8 (vrev32q_u8 (input32 H 2)))
                  (vreinterpretq_u32_u8 (vrev32q_u8 (input32 H 3)))))) SHA256INIT0"
  "BleMinerTransform1 H 1 = vaddq_u32 (STATE1 (sha256_rounds64 (load_lane SHA256INIT0 SHA256INIT1
                  (vreinterpretq_u32_u8 (vrev32q_u8 (input32 H 0)))
                  (vreinterpretq_u32_u8 (vrev32q_u8 (input32 H 1)))
                  (vreinterpretq_u32_u8 (vrev32q_u8 (input32 H 2)))
                  (vreinterpretq_u32_u8 (vrev32q_u8 (input32 H 3)))))) SHA256INIT1"
  "BleMinerTransform1 H 2 = vsha256su0q_u32 (vreinterpretq_u32_u8 (vrev32q_u8 (input32 H 4)))
                              (vreinterpretq_u32_u8 (vrev32q_u8 (input32 H 5)))"
  "BleMinerTransform1 H 3 = vreinterpretq_u32_u8 (vrev32q_u8 (input32 H 5))"
  "BleMinerTransform1 H 5 = PADDING1"
  "BleMinerTransform1 H 12 = STATE0 (rounds_fin1 (vld1q_K 4) (rounds_fin0 (vld1q_K 0)
       (load_lane (BleMinerTransform1 H 0) (BleMinerTransform1 H 1)
          (vreinterpretq_u32_u8 (vrev32q_u8 (input32 H 4))) (BleMinerTransform1 H 3)
          (vreinterpretq_u32_u8 (input32 H 6)) PADDING1)))"
  "BleMinerTransform1 H 13 = STATE1 (rounds_fin1 (vld1q_K 4) (rounds_fin0 (vld1q_K 0)
       (load_lane (BleMinerTransform1 H 0) (BleMinerTransform1 H 1)
          (vreinterpretq_u32_u8 (vrev32q_u8 (input32 H 4))) (BleMinerTransform1 H 3)
          (vreinterpretq_u32_u8 (input32 H 6)) PADDING1)))"
  by (simp_all add: BleMinerTransform1_def Let_def)

lemma set_nonce_time_simps [simp]:
  "i \<noteq> 4 \<Longrightarrow> set_nonce_time N T m i = m i"
  "set_nonce_time N T m 4 = set_lane3 N (set_lane1 T (m 4))"
  by (simp_all add: set_nonce_time_def)

lemma inc_nonce_set_nonce_time:
  "inc_nonce (set_nonce_time N T m) = set_nonce_time (N + 1) T m"
  by (rule ext) (simp add: inc_nonce_def set_nonce_time_def)

text \<open>The three lanes of \<^verbatim>\<open>BleMiner3Way\<close> on the cache of a header, with the counter
  at \<open>N\<close> and the time \<open>T\<close>, and the counter it leaves.\<close>

lemma BleMiner3Way_1way:
  assumes "length H = 112"
  shows "(BleMiner3Way (set_nonce_time N T (BleMinerTransform1 H)) 6,
          BleMiner3Way (set_nonce_time N T (BleMinerTransform1 H)) 7)
           = BleMiner_1way (serialize H N T)"
    and "(BleMiner3Way (set_nonce_time N T (BleMinerTransform1 H)) 8,
          BleMiner3Way (set_nonce_time N T (BleMinerTransform1 H)) 9)
           = BleMiner_1way (serialize H (N + 1) T)"
    and "(BleMiner3Way (set_nonce_time N T (BleMinerTransform1 H)) 10,
          BleMiner3Way (set_nonce_time N T (BleMinerTransform1 H)) 11)
           = BleMiner_1way (serialize H (N + 2) T)"
proof -
  let ?m = "set_nonce_time N T (BleMinerTransform1 H)"
  let ?M0 = "vreinterpretq_u32_u8 (vrev32q_u8 (input32 H 4))"
  have c2: "?m 2 = vsha256su0q_u32 ?M0 (?m 3)" by (simp add: BleMinerTransform1_cache)
  have c12: "?m 12 = STATE0 (rounds_fin1 (vld1q_K 4) (rounds_fin0 (vld1q_K 0)
                 (load_lane (?m 0) (?m 1) ?M0 (?m 3) (vreinterpretq_u32_u8 (input32 H 6)) PADDING1)))"
    by (simp add: BleMinerTransform1_cache(6))
  have c13: "?m 13 = STATE1 (rounds_fin1 (vld1q_K 4) (rounds_fin0 (vld1q_K 0)
                 (load_lane (?m 0) (?m 1) ?M0 (?m 3) (vreinterpretq_u32_u8 (input32 H 6)) PADDING1)))"
    by (simp add: BleMinerTransform1_cache(7))
  note l = BleMiner3Way_lanes [OF c2 c12 c13]
  have k: "BleMiner ((set_nonce_time N' T (BleMinerTransform1 H))(2 := ?M0))
             = BleMiner_1way (serialize H N' T)" for N'
    by (rule BleMiner_is_1way)
       (simp_all add: BleMinerTransform1_cache BleMinerTransform1_4 input32_serialize [OF assms]
          input32_serialize_6 [OF assms] del: One_nat_def)
  show "(BleMiner3Way ?m 6, BleMiner3Way ?m 7) = BleMiner_1way (serialize H N T)"
    unfolding l(1) by (rule k)
  show "(BleMiner3Way ?m 8, BleMiner3Way ?m 9) = BleMiner_1way (serialize H (N + 1) T)"
    unfolding l(2) inc_nonce_set_nonce_time by (rule k)
  have "N + 1 + 1 = N + 2" by simp
  then show "(BleMiner3Way ?m 10, BleMiner3Way ?m 11) = BleMiner_1way (serialize H (N + 2) T)"
    unfolding l(3) inc_nonce_set_nonce_time by (simp add: k add.commute)
qed

section \<open>The flat cache, the two-lane and the four-lane hasher\<close>

lemma vld1q_vst1q_same [simp]: "vld1q_u32 (vst1q_u32 p i v) i = v"
  by (cases v rule: prod_cases4) (simp add: vld1q_u32_def vst1q_u32_def)

lemma vld1q_vst1q_other [simp]:
  "i + 4 \<le> j \<or> j + 4 \<le> i \<Longrightarrow> vld1q_u32 (vst1q_u32 p i v) j = vld1q_u32 p j"
  by (cases v rule: prod_cases4) (auto simp add: vld1q_u32_def vst1q_u32_def)

lemma vld1q_upd_other [simp]:
  "k < j \<or> j + 4 \<le> k \<Longrightarrow> vld1q_u32 (p(k := x)) j = vld1q_u32 p j"
  by (auto simp add: vld1q_u32_def)

lemma vld1q_upd_17: "vld1q_u32 (p(17 := x)) 16 = set_lane1 x (vld1q_u32 p 16)"
  by (simp add: vld1q_u32_def set_lane1_def)

lemma vld1q_upd_19: "vld1q_u32 (p(19 := x)) 16 = set_lane3 x (vld1q_u32 p 16)"
  by (simp add: vld1q_u32_def set_lane3_def)

lemma BleMinerInitialTransform_cache:
  "vld1q_u32 (BleMinerInitialTransform H sp) 0 =
     vaddq_u32 (STATE0 (sha256_rounds64 (load_lane SHA256INIT0 SHA256INIT1
                  (vreinterpretq_u32_u8 (vrev32q_u8 (input32 H 0)))
                  (vreinterpretq_u32_u8 (vrev32q_u8 (input32 H 1)))
                  (vreinterpretq_u32_u8 (vrev32q_u8 (input32 H 2)))
                  (vreinterpretq_u32_u8 (vrev32q_u8 (input32 H 3)))))) SHA256INIT0"
  "vld1q_u32 (BleMinerInitialTransform H sp) 4 =
     vaddq_u32 (STATE1 (sha256_rounds64 (load_lane SHA256INIT0 SHA256INIT1
                  (vreinterpretq_u32_u8 (vrev32q_u8 (input32 H 0)))
                  (vreinterpretq_u32_u8 (vrev32q_u8 (input32 H 1)))
                  (vreinterpretq_u32_u8 (vrev32q_u8 (input32 H 2)))
                  (vreinterpretq_u32_u8 (vrev32q_u8 (input32 H 3)))))) SHA256INIT1"
  "vld1q_u32 (BleMinerInitialTransform H sp) 8 = vreinterpretq_u32_u8 (vrev32q_u8 (input32 H 4))"
  "vld1q_u32 (BleMinerInitialTransform H sp) 12 = vreinterpretq_u32_u8 (vrev32q_u8 (input32 H 5))"
  "vld1q_u32 (BleMinerInitialTransform H sp) 16 = vreinterpretq_u32_u8 (input32 H 6)"
  "vld1q_u32 (BleMinerInitialTransform H sp) 20 = PADDING1"
  "vld1q_u32 (BleMinerInitialTransform H sp) 24 = SHA256INIT0"
  "vld1q_u32 (BleMinerInitialTransform H sp) 28 = SHA256INIT1"
  "vld1q_u32 (BleMinerInitialTransform H sp) 32 = PADDING2A"
  "vld1q_u32 (BleMinerInitialTransform H sp) 36 = PADDING2B"
  by (simp_all add: BleMinerInitialTransform_def Let_def del: One_nat_def)

text \<open>The six-vector argument of \<^verbatim>\<open>BleMiner\<close> and \<^verbatim>\<open>BleMiner2Way\<close> read off the flat
  cache, with time \<open>T\<close> and nonce \<open>N\<close> written to words 17 and 19.\<close>

lemma BleMiner_flat_cache:
  assumes "length H = 112"
  shows "BleMiner (\<lambda>i. vld1q_u32 ((BleMinerInitialTransform H sp)(17 := T, 19 := N)) (4 * i))
           = BleMiner_1way (serialize H N T)"
  by (rule BleMiner_is_1way)
     (simp_all add: BleMinerInitialTransform_cache input32_serialize [OF assms]
        input32_serialize_6 [OF assms] vld1q_upd_17 vld1q_upd_19 del: One_nat_def)

lemma BleMiner2Way_lanes:
  "BleMiner2Way c = (fst (BleMiner c), snd (BleMiner c),
                     fst (BleMiner (inc_nonce c)), snd (BleMiner (inc_nonce c)))"
  by (simp add: BleMiner2Way_def BleMiner_lane Let_def)

lemma inc_nonce_flat:
  "inc_nonce (\<lambda>i. vld1q_u32 (sm(19 := N)) (4 * i)) = (\<lambda>i. vld1q_u32 (sm(19 := N + 1)) (4 * i))"
proof
  fix i :: nat
  show "inc_nonce (\<lambda>i. vld1q_u32 (sm(19 := N)) (4 * i)) i = vld1q_u32 (sm(19 := N + 1)) (4 * i)"
  proof (cases "i = 4")
    case True
    then show ?thesis by (simp add: inc_nonce_def vld1q_u32_def set_lane3_def lane3_def)
  next
    case False
    then have "19 < 4 * i \<or> 4 * i + 4 \<le> 19" by arith
    with False show ?thesis by (simp add: inc_nonce_def)
  qed
qed

lemma BleMiner4Way_lanes:
  assumes "vld1q_u32 sm 24 = SHA256INIT0" and "vld1q_u32 sm 28 = SHA256INIT1"
    and "vld1q_u32 sm 32 = PADDING2A" and "vld1q_u32 sm 36 = PADDING2B"
  shows "fst (BleMiner4Way sm wp) = sm(19 := sm 19 + 4)"
    and "(STATE0 (wpA (snd (BleMiner4Way sm wp))), STATE1 (wpA (snd (BleMiner4Way sm wp))))
           = BleMiner (\<lambda>i. vld1q_u32 sm (4 * i))"
    and "(STATE0 (wpB (snd (BleMiner4Way sm wp))), STATE1 (wpB (snd (BleMiner4Way sm wp))))
           = BleMiner (\<lambda>i. vld1q_u32 (sm(19 := sm 19 + 1)) (4 * i))"
    and "(STATE0 (wpC (snd (BleMiner4Way sm wp))), STATE1 (wpC (snd (BleMiner4Way sm wp))))
           = BleMiner (\<lambda>i. vld1q_u32 (sm(19 := sm 19 + 2)) (4 * i))"
    and "(STATE0 (wpD (snd (BleMiner4Way sm wp))), STATE1 (wpD (snd (BleMiner4Way sm wp))))
           = BleMiner (\<lambda>i. vld1q_u32 (sm(19 := sm 19 + 3)) (4 * i))"
proof -
  have a: "sm 19 + 1 + 1 = sm 19 + 2" "sm 19 + 2 + 1 = sm 19 + 3" "sm 19 + 3 + 1 = sm 19 + 4"
    by simp_all
  show "fst (BleMiner4Way sm wp) = sm(19 := sm 19 + 4)"
    by (simp add: BleMiner4Way_def Let_def a add.commute)
  show "(STATE0 (wpA (snd (BleMiner4Way sm wp))), STATE1 (wpA (snd (BleMiner4Way sm wp))))
           = BleMiner (\<lambda>i. vld1q_u32 sm (4 * i))"
    by (simp add: BleMiner4Way_def BleMiner4Way_body_def finish_lane_def BleMiner_lane Let_def assms a
        vld1q_upd_19 add.commute)
  show "(STATE0 (wpB (snd (BleMiner4Way sm wp))), STATE1 (wpB (snd (BleMiner4Way sm wp))))
           = BleMiner (\<lambda>i. vld1q_u32 (sm(19 := sm 19 + 1)) (4 * i))"
    by (simp add: BleMiner4Way_def BleMiner4Way_body_def finish_lane_def BleMiner_lane Let_def assms a
        vld1q_upd_19 add.commute)
  show "(STATE0 (wpC (snd (BleMiner4Way sm wp))), STATE1 (wpC (snd (BleMiner4Way sm wp))))
           = BleMiner (\<lambda>i. vld1q_u32 (sm(19 := sm 19 + 2)) (4 * i))"
    by (simp add: BleMiner4Way_def BleMiner4Way_body_def finish_lane_def BleMiner_lane Let_def assms a
        vld1q_upd_19 add.commute)
  show "(STATE0 (wpD (snd (BleMiner4Way sm wp))), STATE1 (wpD (snd (BleMiner4Way sm wp))))
           = BleMiner (\<lambda>i. vld1q_u32 (sm(19 := sm 19 + 3)) (4 * i))"
    by (simp add: BleMiner4Way_def BleMiner4Way_body_def finish_lane_def BleMiner_lane Let_def assms a
        vld1q_upd_19 add.commute)
qed

section \<open>The instructions and the rounds of the standard\<close>

lemma SHAchoose_Ch: "SHAchoose x y z = Ch x y z"
  unfolding SHAchoose_def Ch_def
  by (rule bit_word_eqI) (auto simp add: bit_simps)

lemma SHAmajority_Maj: "SHAmajority x y z = Maj x y z"
  unfolding SHAmajority_def Maj_def
  by (rule bit_word_eqI) (auto simp add: bit_simps)

lemma SHAhashSIGMA_bsig: "SHAhashSIGMA0 x = bsig0 x" "SHAhashSIGMA1 x = bsig1 x"
  by (simp_all add: SHAhashSIGMA0_def SHAhashSIGMA1_def bsig0_def bsig1_def)

lemma su_elt_ssig: "su0_elt x = ssig0 x" "su1_elt x = ssig1 x"
  by (simp_all add: su0_elt_def su1_elt_def ssig0_def ssig1_def)

lemma SHA256hash_iter_round:
  "SHA256hash_iter ((a, b, c, d), (e, f, g, h)) (w + k)
     = (case sha_round (k, w) (a, b, c, d, e, f, g, h) of
          (a', b', c', d', e', f', g', h') \<Rightarrow> ((a', b', c', d'), (e', f', g', h')))"
  by (simp add: SHA256hash_iter_def sha_round_def Let_def SHAchoose_Ch SHAmajority_Maj
      SHAhashSIGMA_bsig ac_simps)

section \<open>Four rounds at a time\<close>

lemma SHA256hash_iter_regs:
  "SHA256hash_iter (regs s) (w + k) = regs (sha_round (k, w) s)"
proof -
  obtain a b c d e f g h where s: "s = (a, b, c, d, e, f, g, h)"
    by (cases s rule: prod_cases7) (auto intro: prod.exhaust)
  show ?thesis
    unfolding s by (simp add: regs_def SHA256hash_iter_round sha_round_def Let_def)
qed

lemma SHA256hash_regs:
  "SHA256hash (fst (regs s)) (snd (regs s)) (vaddq_u32 (w0, w1, w2, w3) (k0, k1, k2, k3))
     = regs (sha_round (k3, w3) (sha_round (k2, w2) (sha_round (k1, w1) (sha_round (k0, w0) s))))"
  by (simp add: SHA256hash_def vaddq_u32_def SHA256hash_iter_regs)

text \<open>One group of four rounds on the state registers, for a sequence \<open>r\<close> of states
  of the standard and a sequence \<open>w\<close> of message words.\<close>

lemma four_rounds:
  assumes rS: "\<And>i. i < 64 \<Longrightarrow> r (Suc i) = sha_round (K ! i, w i) (r i)"
    and n: "n + 3 < 64"
  shows "vsha256hq_u32 (fst (regs (r n))) (snd (regs (r n))) (vaddq_u32 (quad w n) (vld1q_K n))
           = fst (regs (r (n + 4)))"
    and "vsha256h2q_u32 (snd (regs (r n))) (fst (regs (r n))) (vaddq_u32 (quad w n) (vld1q_K n))
           = snd (regs (r (n + 4)))"
proof -
  have a: "Suc n = n + 1" "Suc (n + 1) = n + 2" "Suc (n + 2) = n + 3" "Suc (n + 3) = n + 4"
    by simp_all
  from n have b: "n < 64" "n + 1 < 64" "n + 2 < 64" by simp_all
  note 1 = rS [OF b(1), unfolded a]
  note 2 = rS [OF b(2), unfolded a]
  note 3 = rS [OF b(3), unfolded a]
  note 4 = rS [OF n, unfolded a]
  have "r (n + 4) = sha_round (K ! (n + 3), w (n + 3)) (sha_round (K ! (n + 2), w (n + 2))
                 (sha_round (K ! (n + 1), w (n + 1)) (sha_round (K ! n, w n) (r n))))"
    unfolding 4 3 2 1 by (rule refl)
  then have e: "SHA256hash (fst (regs (r n))) (snd (regs (r n)))
                     (vaddq_u32 (quad w n) (vld1q_K n)) = regs (r (n + 4))"
    by (simp add: quad_def vld1q_K_def SHA256hash_regs)
  show "vsha256hq_u32 (fst (regs (r n))) (snd (regs (r n))) (vaddq_u32 (quad w n) (vld1q_K n))
           = fst (regs (r (n + 4)))"
    by (simp add: vsha256hq_u32_def e)
  show "vsha256h2q_u32 (snd (regs (r n))) (fst (regs (r n))) (vaddq_u32 (quad w n) (vld1q_K n))
           = snd (regs (r (n + 4)))"
    by (simp add: vsha256h2q_u32_def e)
qed

text \<open>The two schedule instructions give the next four words of the message
  schedule.\<close>

lemma schedule_update:
  assumes rec: "\<And>t. 16 \<le> t \<Longrightarrow> t < 64 \<Longrightarrow>
                  w t = ssig1 (w (t - 2)) + w (t - 7) + ssig0 (w (t - 15)) + w (t - 16)"
    and n: "n + 19 < 64"
  shows "vsha256su1q_u32 (vsha256su0q_u32 (quad w n) (quad w (n + 4))) (quad w (n + 8))
           (quad w (n + 12)) = quad w (n + 16)"
proof -
  have a: "n + 16 - 2 = n + 14" "n + 16 - 7 = n + 9" "n + 16 - 15 = n + 1" "n + 16 - 16 = n"
    "n + 17 - 2 = n + 15" "n + 17 - 7 = n + 10" "n + 17 - 15 = n + 2" "n + 17 - 16 = n + 1"
    "n + 18 - 2 = n + 16" "n + 18 - 7 = n + 11" "n + 18 - 15 = n + 3" "n + 18 - 16 = n + 2"
    "n + 19 - 2 = n + 17" "n + 19 - 7 = n + 12" "n + 19 - 15 = n + 4" "n + 19 - 16 = n + 3"
    by simp_all
  from n have b: "16 \<le> n + 16" "n + 16 < 64" "16 \<le> n + 17" "n + 17 < 64"
    "16 \<le> n + 18" "n + 18 < 64" "16 \<le> n + 19" by simp_all
  note r0 = rec [OF b(1) b(2), unfolded a]
  note r1 = rec [OF b(3) b(4), unfolded a]
  note r2 = rec [OF b(5) b(6), unfolded a]
  note r3 = rec [OF b(7) n, unfolded a]
  have c: "n + 4 + 1 = n + 5" "n + 8 + 1 = n + 9" "n + 8 + 2 = n + 10" "n + 8 + 3 = n + 11"
    "n + 12 + 1 = n + 13" "n + 12 + 2 = n + 14" "n + 12 + 3 = n + 15"
    "n + 16 + 1 = n + 17" "n + 16 + 2 = n + 18" "n + 16 + 3 = n + 19"
    by simp_all
  have e0: "ssig1 (w (n + 14)) + (ssig0 (w (n + 1)) + w n) + w (n + 9) = w (n + 16)"
    unfolding r0 by (simp only: ac_simps)
  have e1: "ssig1 (w (n + 15)) + (ssig0 (w (n + 2)) + w (n + 1)) + w (n + 10) = w (n + 17)"
    unfolding r1 by (simp only: ac_simps)
  have e2: "ssig1 (w (n + 16)) + (ssig0 (w (n + 3)) + w (n + 2)) + w (n + 11) = w (n + 18)"
    unfolding r2 by (simp only: ac_simps)
  have e3: "ssig1 (w (n + 17)) + (ssig0 (w (n + 4)) + w (n + 3)) + w (n + 12) = w (n + 19)"
    unfolding r3 by (simp only: ac_simps)
  show ?thesis
    unfolding quad_def vsha256su0q_u32_def vsha256su1q_u32_def su_elt_ssig c prod.case Let_def
      e0 e1 e2 e3
    by (rule refl)
qed

lemma rounds_su0_step:
  assumes rS: "\<And>i. i < 64 \<Longrightarrow> r (Suc i) = sha_round (K ! i, w i) (r i)"
    and rec: "\<And>t. 16 \<le> t \<Longrightarrow> t < 64 \<Longrightarrow>
                  w t = ssig1 (w (t - 2)) + w (t - 7) + ssig0 (w (t - 15)) + w (t - 16)"
    and n: "n + 19 < 64"
  shows "rounds_su0 (vld1q_K n)
           (load_lane (fst (regs (r n))) (snd (regs (r n))) (quad w n) (quad w (n + 4)) (quad w (n + 8)) (quad w (n + 12)))
         = load_lane (fst (regs (r (n + 4)))) (snd (regs (r (n + 4)))) (quad w (n + 16)) (quad w (n + 4)) (quad w (n + 8)) (quad w (n + 12))"
proof -
  from n have m: "n + 3 < 64" by simp
  show ?thesis
    by (simp add: rounds_su0_def quad_su0_def Let_def load_lane_def
        four_rounds [OF rS m] schedule_update [OF rec n])
qed

lemma rounds_fin0_step:
  assumes rS: "\<And>i. i < 64 \<Longrightarrow> r (Suc i) = sha_round (K ! i, w i) (r i)"
    and n: "n + 3 < 64"
    and m: "M0 = quad w n"
  shows "rounds_fin0 (vld1q_K n) (load_lane (fst (regs (r n))) (snd (regs (r n))) M0 M1 M2 M3)
         = load_lane (fst (regs (r (n + 4)))) (snd (regs (r (n + 4)))) M0 M1 M2 M3"
  by (simp add: rounds_fin0_def quad_fin_def Let_def load_lane_def m four_rounds [OF rS n])

lemma rounds_su1_step:
  assumes rS: "\<And>i. i < 64 \<Longrightarrow> r (Suc i) = sha_round (K ! i, w i) (r i)"
    and rec: "\<And>t. 16 \<le> t \<Longrightarrow> t < 64 \<Longrightarrow>
                  w t = ssig1 (w (t - 2)) + w (t - 7) + ssig0 (w (t - 15)) + w (t - 16)"
    and n: "n + 19 < 64"
  shows "rounds_su1 (vld1q_K n)
           (load_lane (fst (regs (r n))) (snd (regs (r n))) (quad w (n + 12)) (quad w n) (quad w (n + 4)) (quad w (n + 8)))
         = load_lane (fst (regs (r (n + 4)))) (snd (regs (r (n + 4)))) (quad w (n + 12)) (quad w (n + 16)) (quad w (n + 4)) (quad w (n + 8))"
proof -
  from n have m: "n + 3 < 64" by simp
  show ?thesis
    by (simp add: rounds_su1_def quad_su1_def Let_def load_lane_def
        four_rounds [OF rS m] schedule_update [OF rec n])
qed

lemma rounds_fin1_step:
  assumes rS: "\<And>i. i < 64 \<Longrightarrow> r (Suc i) = sha_round (K ! i, w i) (r i)"
    and n: "n + 3 < 64"
    and m: "M1 = quad w n"
  shows "rounds_fin1 (vld1q_K n) (load_lane (fst (regs (r n))) (snd (regs (r n))) M0 M1 M2 M3)
         = load_lane (fst (regs (r (n + 4)))) (snd (regs (r (n + 4)))) M0 M1 M2 M3"
  by (simp add: rounds_fin1_def quad_fin_def Let_def load_lane_def m four_rounds [OF rS n])

lemma rounds_su2_step:
  assumes rS: "\<And>i. i < 64 \<Longrightarrow> r (Suc i) = sha_round (K ! i, w i) (r i)"
    and rec: "\<And>t. 16 \<le> t \<Longrightarrow> t < 64 \<Longrightarrow>
                  w t = ssig1 (w (t - 2)) + w (t - 7) + ssig0 (w (t - 15)) + w (t - 16)"
    and n: "n + 19 < 64"
  shows "rounds_su2 (vld1q_K n)
           (load_lane (fst (regs (r n))) (snd (regs (r n))) (quad w (n + 8)) (quad w (n + 12)) (quad w n) (quad w (n + 4)))
         = load_lane (fst (regs (r (n + 4)))) (snd (regs (r (n + 4)))) (quad w (n + 8)) (quad w (n + 12)) (quad w (n + 16)) (quad w (n + 4))"
proof -
  from n have m: "n + 3 < 64" by simp
  show ?thesis
    by (simp add: rounds_su2_def quad_su2_def Let_def load_lane_def
        four_rounds [OF rS m] schedule_update [OF rec n])
qed

lemma rounds_fin2_step:
  assumes rS: "\<And>i. i < 64 \<Longrightarrow> r (Suc i) = sha_round (K ! i, w i) (r i)"
    and n: "n + 3 < 64"
    and m: "M2 = quad w n"
  shows "rounds_fin2 (vld1q_K n) (load_lane (fst (regs (r n))) (snd (regs (r n))) M0 M1 M2 M3)
         = load_lane (fst (regs (r (n + 4)))) (snd (regs (r (n + 4)))) M0 M1 M2 M3"
  by (simp add: rounds_fin2_def quad_fin_def Let_def load_lane_def m four_rounds [OF rS n])

lemma rounds_su3_step:
  assumes rS: "\<And>i. i < 64 \<Longrightarrow> r (Suc i) = sha_round (K ! i, w i) (r i)"
    and rec: "\<And>t. 16 \<le> t \<Longrightarrow> t < 64 \<Longrightarrow>
                  w t = ssig1 (w (t - 2)) + w (t - 7) + ssig0 (w (t - 15)) + w (t - 16)"
    and n: "n + 19 < 64"
  shows "rounds_su3 (vld1q_K n)
           (load_lane (fst (regs (r n))) (snd (regs (r n))) (quad w (n + 4)) (quad w (n + 8)) (quad w (n + 12)) (quad w n))
         = load_lane (fst (regs (r (n + 4)))) (snd (regs (r (n + 4)))) (quad w (n + 4)) (quad w (n + 8)) (quad w (n + 12)) (quad w (n + 16))"
proof -
  from n have m: "n + 3 < 64" by simp
  show ?thesis
    by (simp add: rounds_su3_def quad_su3_def Let_def load_lane_def
        four_rounds [OF rS m] schedule_update [OF rec n])
qed

lemma rounds_fin3_step:
  assumes rS: "\<And>i. i < 64 \<Longrightarrow> r (Suc i) = sha_round (K ! i, w i) (r i)"
    and n: "n + 3 < 64"
    and m: "M3 = quad w n"
  shows "rounds_fin3 (vld1q_K n) (load_lane (fst (regs (r n))) (snd (regs (r n))) M0 M1 M2 M3)
         = load_lane (fst (regs (r (n + 4)))) (snd (regs (r (n + 4)))) M0 M1 M2 M3"
  by (simp add: rounds_fin3_def quad_fin_def Let_def load_lane_def m four_rounds [OF rS n])
section \<open>Sixty-four rounds\<close>

text \<open>The unrolled sequence of sixteen groups, on a lane that holds a state of the
  standard and the first sixteen words of a message schedule, leaves the state after
  sixty-four rounds.\<close>

lemma sha256_rounds64_regs:
  assumes rS: "\<And>i. i < 64 \<Longrightarrow> r (Suc i) = sha_round (K ! i, w i) (r i)"
    and rec: "\<And>t. 16 \<le> t \<Longrightarrow> t < 64 \<Longrightarrow>
                  w t = ssig1 (w (t - 2)) + w (t - 7) + ssig0 (w (t - 15)) + w (t - 16)"
  shows "sha256_rounds64
           (load_lane (fst (regs (r 0))) (snd (regs (r 0)))
              (quad w 0) (quad w 4) (quad w 8) (quad w 12))
         = load_lane (fst (regs (r 64))) (snd (regs (r 64)))
              (quad w 48) (quad w 52) (quad w 56) (quad w 60)"
proof -
  have g0: "rounds_su0 (vld1q_K 0) (load_lane (fst (regs (r 0))) (snd (regs (r 0))) (quad w 0) (quad w 4) (quad w 8) (quad w 12))
            = load_lane (fst (regs (r 4))) (snd (regs (r 4))) (quad w 16) (quad w 4) (quad w 8) (quad w 12)"
    using rounds_su0_step [OF rS rec, of 0] by simp
  have g1: "rounds_su1 (vld1q_K 4) (load_lane (fst (regs (r 4))) (snd (regs (r 4))) (quad w 16) (quad w 4) (quad w 8) (quad w 12))
            = load_lane (fst (regs (r 8))) (snd (regs (r 8))) (quad w 16) (quad w 20) (quad w 8) (quad w 12)"
    using rounds_su1_step [OF rS rec, of 4] by simp
  have g2: "rounds_su2 (vld1q_K 8) (load_lane (fst (regs (r 8))) (snd (regs (r 8))) (quad w 16) (quad w 20) (quad w 8) (quad w 12))
            = load_lane (fst (regs (r 12))) (snd (regs (r 12))) (quad w 16) (quad w 20) (quad w 24) (quad w 12)"
    using rounds_su2_step [OF rS rec, of 8] by simp
  have g3: "rounds_su3 (vld1q_K 12) (load_lane (fst (regs (r 12))) (snd (regs (r 12))) (quad w 16) (quad w 20) (quad w 24) (quad w 12))
            = load_lane (fst (regs (r 16))) (snd (regs (r 16))) (quad w 16) (quad w 20) (quad w 24) (quad w 28)"
    using rounds_su3_step [OF rS rec, of 12] by simp
  have g4: "rounds_su0 (vld1q_K 16) (load_lane (fst (regs (r 16))) (snd (regs (r 16))) (quad w 16) (quad w 20) (quad w 24) (quad w 28))
            = load_lane (fst (regs (r 20))) (snd (regs (r 20))) (quad w 32) (quad w 20) (quad w 24) (quad w 28)"
    using rounds_su0_step [OF rS rec, of 16] by simp
  have g5: "rounds_su1 (vld1q_K 20) (load_lane (fst (regs (r 20))) (snd (regs (r 20))) (quad w 32) (quad w 20) (quad w 24) (quad w 28))
            = load_lane (fst (regs (r 24))) (snd (regs (r 24))) (quad w 32) (quad w 36) (quad w 24) (quad w 28)"
    using rounds_su1_step [OF rS rec, of 20] by simp
  have g6: "rounds_su2 (vld1q_K 24) (load_lane (fst (regs (r 24))) (snd (regs (r 24))) (quad w 32) (quad w 36) (quad w 24) (quad w 28))
            = load_lane (fst (regs (r 28))) (snd (regs (r 28))) (quad w 32) (quad w 36) (quad w 40) (quad w 28)"
    using rounds_su2_step [OF rS rec, of 24] by simp
  have g7: "rounds_su3 (vld1q_K 28) (load_lane (fst (regs (r 28))) (snd (regs (r 28))) (quad w 32) (quad w 36) (quad w 40) (quad w 28))
            = load_lane (fst (regs (r 32))) (snd (regs (r 32))) (quad w 32) (quad w 36) (quad w 40) (quad w 44)"
    using rounds_su3_step [OF rS rec, of 28] by simp
  have g8: "rounds_su0 (vld1q_K 32) (load_lane (fst (regs (r 32))) (snd (regs (r 32))) (quad w 32) (quad w 36) (quad w 40) (quad w 44))
            = load_lane (fst (regs (r 36))) (snd (regs (r 36))) (quad w 48) (quad w 36) (quad w 40) (quad w 44)"
    using rounds_su0_step [OF rS rec, of 32] by simp
  have g9: "rounds_su1 (vld1q_K 36) (load_lane (fst (regs (r 36))) (snd (regs (r 36))) (quad w 48) (quad w 36) (quad w 40) (quad w 44))
            = load_lane (fst (regs (r 40))) (snd (regs (r 40))) (quad w 48) (quad w 52) (quad w 40) (quad w 44)"
    using rounds_su1_step [OF rS rec, of 36] by simp
  have g10: "rounds_su2 (vld1q_K 40) (load_lane (fst (regs (r 40))) (snd (regs (r 40))) (quad w 48) (quad w 52) (quad w 40) (quad w 44))
            = load_lane (fst (regs (r 44))) (snd (regs (r 44))) (quad w 48) (quad w 52) (quad w 56) (quad w 44)"
    using rounds_su2_step [OF rS rec, of 40] by simp
  have g11: "rounds_su3 (vld1q_K 44) (load_lane (fst (regs (r 44))) (snd (regs (r 44))) (quad w 48) (quad w 52) (quad w 56) (quad w 44))
            = load_lane (fst (regs (r 48))) (snd (regs (r 48))) (quad w 48) (quad w 52) (quad w 56) (quad w 60)"
    using rounds_su3_step [OF rS rec, of 44] by simp
  have g12: "rounds_fin0 (vld1q_K 48) (load_lane (fst (regs (r 48))) (snd (regs (r 48))) (quad w 48) (quad w 52) (quad w 56) (quad w 60))
            = load_lane (fst (regs (r 52))) (snd (regs (r 52))) (quad w 48) (quad w 52) (quad w 56) (quad w 60)"
    by (rule rounds_fin0_step [OF rS, of 48, simplified]) (rule refl)
  have g13: "rounds_fin1 (vld1q_K 52) (load_lane (fst (regs (r 52))) (snd (regs (r 52))) (quad w 48) (quad w 52) (quad w 56) (quad w 60))
            = load_lane (fst (regs (r 56))) (snd (regs (r 56))) (quad w 48) (quad w 52) (quad w 56) (quad w 60)"
    by (rule rounds_fin1_step [OF rS, of 52, simplified]) (rule refl)
  have g14: "rounds_fin2 (vld1q_K 56) (load_lane (fst (regs (r 56))) (snd (regs (r 56))) (quad w 48) (quad w 52) (quad w 56) (quad w 60))
            = load_lane (fst (regs (r 60))) (snd (regs (r 60))) (quad w 48) (quad w 52) (quad w 56) (quad w 60)"
    by (rule rounds_fin2_step [OF rS, of 56, simplified]) (rule refl)
  have g15: "rounds_fin3 (vld1q_K 60) (load_lane (fst (regs (r 60))) (snd (regs (r 60))) (quad w 48) (quad w 52) (quad w 56) (quad w 60))
            = load_lane (fst (regs (r 64))) (snd (regs (r 64))) (quad w 48) (quad w 52) (quad w 56) (quad w 60)"
    by (rule rounds_fin3_step [OF rS, of 60, simplified]) (rule refl)
  show ?thesis
    unfolding sha256_rounds64_def rounds_1_12_def rounds_13_16_def rounds_17_64_def Let_def
      g0 g1 g2 g3 g4 g5 g6 g7 g8 g9 g10 g11 g12 g13 g14 g15
    by (rule refl)
qed
section \<open>The compression function\<close>

lemma length_schedule_steps: "length ((schedule_step ^^ n) M) = length M + n"
  by (induction n) (simp_all add: schedule_step_def Let_def)

lemma nth_schedule_steps_prefix:
  "i < length M + n \<Longrightarrow> n \<le> m \<Longrightarrow> ((schedule_step ^^ m) M) ! i = ((schedule_step ^^ n) M) ! i"
proof (induction m)
  case 0
  then show ?case by simp
next
  case (Suc m)
  show ?case
  proof (cases "n = Suc m")
    case True
    then show ?thesis by simp
  next
    case False
    with Suc.prems have le: "n \<le> m" by simp
    with Suc.prems have "i < length ((schedule_step ^^ m) M)"
      by (simp add: length_schedule_steps)
    then have "((schedule_step ^^ Suc m) M) ! i = ((schedule_step ^^ m) M) ! i"
      by (simp add: schedule_step_def Let_def nth_append)
    with Suc.IH [OF Suc.prems(1) le] show ?thesis by simp
  qed
qed

lemma length_schedule [simp]: "length M = 16 \<Longrightarrow> length (schedule M) = 64"
  by (simp add: schedule_def length_schedule_steps)

lemma schedule_nth_message:
  assumes "length M = 16" and "t < 16"
  shows "schedule M ! t = M ! t"
  using nth_schedule_steps_prefix [of t M 0 48] assms by (simp add: schedule_def)

lemma schedule_recurrence:
  assumes M: "length M = 16" and t: "16 \<le> t" "t < 64"
  shows "schedule M ! t = ssig1 (schedule M ! (t - 2)) + schedule M ! (t - 7)
                        + ssig0 (schedule M ! (t - 15)) + schedule M ! (t - 16)"
proof -
  let ?X = "(schedule_step ^^ (t - 16)) M"
  have lX: "length ?X = t" using M t by (simp add: length_schedule_steps)
  have p: "schedule M ! j = ?X ! j" if "j < t" for j
    unfolding schedule_def using that M t
    by (intro nth_schedule_steps_prefix) simp_all
  have "schedule M ! t = ((schedule_step ^^ Suc (t - 16)) M) ! t"
    unfolding schedule_def using M t by (intro nth_schedule_steps_prefix) simp_all
  also have "\<dots> = ssig1 (?X ! (t - 2)) + ?X ! (t - 7) + ssig0 (?X ! (t - 15)) + ?X ! (t - 16)"
    using lX by (simp add: schedule_step_def Let_def nth_append)
  also have "\<dots> = ssig1 (schedule M ! (t - 2)) + schedule M ! (t - 7)
                        + ssig0 (schedule M ! (t - 15)) + schedule M ! (t - 16)"
    using t by (simp add: p)
  finally show ?thesis .
qed

lemma length_K [simp]: "length K = 64"
  by (simp add: K_def)

lemma fold_rounds_Suc:
  assumes "length W = 64" and "i < 64"
  shows "fold sha_round (take (Suc i) (zip K W)) s
           = sha_round (K ! i, W ! i) (fold sha_round (take i (zip K W)) s)"
proof -
  from assms have "i < length (zip K W)" by simp
  then have "take (Suc i) (zip K W) = take i (zip K W) @ [zip K W ! i]"
    by (rule take_Suc_conv_app_nth)
  with assms show ?thesis by simp
qed

lemma regs_add8:
  "regs (add8 s t) = (vaddq_u32 (fst (regs t)) (fst (regs s)), vaddq_u32 (snd (regs t)) (snd (regs s)))"
proof -
  obtain a b c d e f g h where s: "s = (a, b, c, d, e, f, g, h)"
    by (cases s rule: prod_cases7) (auto intro: prod.exhaust)
  obtain a' b' c' d' e' f' g' h' where t: "t = (a', b', c', d', e', f', g', h')"
    by (cases t rule: prod_cases7) (auto intro: prod.exhaust)
  show ?thesis
    unfolding s t by (simp add: regs_def add8_def vaddq_u32_def add.commute)
qed

text \<open>One run of the sixteen groups followed by the addition of the state it started
  from is the compression function of the standard.\<close>

lemma compress_rounds64:
  assumes M: "length M = 16"
  shows "regs (compress s M) =
           (vaddq_u32 (STATE0 (sha256_rounds64 (load_lane (fst (regs s)) (snd (regs s))
                 (M ! 0, M ! 1, M ! 2, M ! 3) (M ! 4, M ! 5, M ! 6, M ! 7)
                 (M ! 8, M ! 9, M ! 10, M ! 11) (M ! 12, M ! 13, M ! 14, M ! 15)))) (fst (regs s)),
            vaddq_u32 (STATE1 (sha256_rounds64 (load_lane (fst (regs s)) (snd (regs s))
                 (M ! 0, M ! 1, M ! 2, M ! 3) (M ! 4, M ! 5, M ! 6, M ! 7)
                 (M ! 8, M ! 9, M ! 10, M ! 11) (M ! 12, M ! 13, M ! 14, M ! 15)))) (snd (regs s)))"
proof -
  let ?W = "schedule M"
  let ?r = "\<lambda>n. fold sha_round (take n (zip K ?W)) s"
  let ?w = "\<lambda>t. ?W ! t"
  have lW: "length ?W = 64" using M by simp
  have rS: "?r (Suc i) = sha_round (K ! i, ?w i) (?r i)" if "i < 64" for i
    by (rule fold_rounds_Suc [OF lW that])
  have rec: "?w t = ssig1 (?w (t - 2)) + ?w (t - 7) + ssig0 (?w (t - 15)) + ?w (t - 16)"
    if "16 \<le> t" "t < 64" for t
    by (rule schedule_recurrence [OF M that])
  have q: "quad ?w 0 = (M ! 0, M ! 1, M ! 2, M ! 3)" "quad ?w 4 = (M ! 4, M ! 5, M ! 6, M ! 7)"
    "quad ?w 8 = (M ! 8, M ! 9, M ! 10, M ! 11)" "quad ?w 12 = (M ! 12, M ! 13, M ! 14, M ! 15)"
    by (simp_all add: quad_def schedule_nth_message [OF M] eval_nat_numeral)
  have r0: "?r 0 = s" by simp
  have r64: "?r 64 = fold sha_round (zip K ?W) s" using lW by simp
  have e: "sha256_rounds64 (load_lane (fst (regs s)) (snd (regs s))
                 (M ! 0, M ! 1, M ! 2, M ! 3) (M ! 4, M ! 5, M ! 6, M ! 7)
                 (M ! 8, M ! 9, M ! 10, M ! 11) (M ! 12, M ! 13, M ! 14, M ! 15))
           = load_lane (fst (regs (fold sha_round (zip K ?W) s)))
               (snd (regs (fold sha_round (zip K ?W) s)))
               (quad ?w 48) (quad ?w 52) (quad ?w 56) (quad ?w 60)"
    using sha256_rounds64_regs [of ?r ?w, OF rS rec] unfolding q r0 r64 by simp
  show ?thesis
    unfolding e by (simp add: compress_def regs_add8)
qed

section \<open>Blocks, padding and the double hash\<close>

lemma length_be_words: "length (be_words xs) = length xs div 4"
  by (induction xs rule: be_words.induct) simp_all

lemma be_words_nth:
  "4 * j + 3 < length xs \<Longrightarrow>
     be_words xs ! j = be32 (xs ! (4 * j)) (xs ! (4 * j + 1)) (xs ! (4 * j + 2)) (xs ! (4 * j + 3))"
proof (induction xs arbitrary: j rule: be_words.induct)
  case (1 b0 b1 b2 b3 bs)
  show ?case
  proof (cases j)
    case 0
    then show ?thesis by simp
  next
    case (Suc i)
    with 1 have "4 * i + 3 < length bs" by simp
    from "1.IH" [OF this] Suc show ?thesis
      by (simp add: numeral_eq_Suc)
  qed
qed simp_all

lemma be_words_be_bytes [simp]: "be_words (be_bytes w @ bs) = w # be_words bs"
proof -
  obtain b0 b1 b2 b3 where b: "be_bytes w = [b0, b1, b2, b3]" by (simp add: be_bytes_def)
  from be32_be_bytes [OF b] show ?thesis by (simp add: b)
qed

lemma hash_bytes_regs: "hash_bytes (fst (regs s)) (snd (regs s)) = state_bytes s"
proof -
  obtain a b c d e f g h where s: "s = (a, b, c, d, e, f, g, h)"
    by (cases s rule: prod_cases7) (auto intro: prod.exhaust)
  show ?thesis unfolding s by (simp add: regs_def hash_bytes_state_bytes)
qed

lemma length_state_bytes [simp]: "length (state_bytes s) = 32"
proof -
  obtain a b c d e f g h where s: "s = (a, b, c, d, e, f, g, h)"
    by (cases s rule: prod_cases7) (auto intro: prod.exhaust)
  show ?thesis unfolding s by (simp add: state_bytes_def)
qed

lemma regs_sha256_H0: "regs sha256_H0 = (SHA256INIT0, SHA256INIT1)"
  by (simp add: regs_def sha256_H0_def SHA256INIT0_def SHA256INIT1_def)

text \<open>Sixteen bytes of a buffer, loaded and byte-swapped, are four big-endian words of
  it.\<close>

lemma be_vector:
  assumes "16 * k + 15 < length xs"
  shows "vreinterpretq_u32_u8 (vrev32q_u8 (input32 xs k))
       = (be_words xs ! (4 * k), be_words xs ! (4 * k + 1), be_words xs ! (4 * k + 2),
          be_words xs ! (4 * k + 3))"
proof -
  have a: "4 * (4 * k) = 16 * k" "4 * (4 * k + 1) = 16 * k + 4" "4 * (4 * k + 2) = 16 * k + 8"
    "4 * (4 * k + 3) = 16 * k + 12" by simp_all
  have b: "16 * k + 4 + 1 = 16 * k + 5" "16 * k + 4 + 2 = 16 * k + 6" "16 * k + 4 + 3 = 16 * k + 7"
    "16 * k + 8 + 1 = 16 * k + 9" "16 * k + 8 + 2 = 16 * k + 10" "16 * k + 8 + 3 = 16 * k + 11"
    "16 * k + 12 + 1 = 16 * k + 13" "16 * k + 12 + 2 = 16 * k + 14" "16 * k + 12 + 3 = 16 * k + 15"
    by simp_all
  from assms have c: "4 * (4 * k) + 3 < length xs" "4 * (4 * k + 1) + 3 < length xs"
    "4 * (4 * k + 2) + 3 < length xs" "4 * (4 * k + 3) + 3 < length xs" by simp_all
  show ?thesis
    unfolding be_words_nth [OF c(1)] be_words_nth [OF c(2)] be_words_nth [OF c(3)]
      be_words_nth [OF c(4)] a b
    by (simp add: input32_def vrev32q_u8_def rev4_def vreinterpretq_u32_u8_def be32_le32)
qed

section \<open>The claims\<close>



text \<open>
  C4 (as amended).  The claim that the intervals \<open>[i * PAGE, (i + 1) * PAGE)\<close> tile
  \<open>[0, 2^32)\<close> for every thread count fails: with three threads the page size is
  \<open>0x55555555\<close> and the nonce \<open>0xFFFFFFFF\<close> lies in no interval.  What holds for every
  thread count \<open>N \<ge> 2\<close>: the page size is \<open>2^32 div N\<close>; the \<^verbatim>\<open>to\<close> of a worker is its
  \<^verbatim>\<open>from\<close> plus the page size (a 32-bit sum); a nonce lies in at most one page; the
  nonces that lie in a page are exactly those below \<open>N * PAGE\<close>; and every nonce lies in
  a page if and only if \<open>N\<close> divides \<open>2^32\<close>.
\<close>

theorem partition_tiles_below_top:
  assumes "2 \<le> unat N"
  shows "unat (PAGE_SIZE_MINER N) = 2 ^ 32 div unat N
    \<and> (\<forall>i. thread_to N i = thread_from N i + PAGE_SIZE_MINER N)
    \<and> (\<forall>i x. i < N \<and> in_page N i x \<longrightarrow> (\<forall>j. j < N \<and> in_page N j x \<longrightarrow> j = i))
    \<and> (\<forall>x. (\<exists>i. i < N \<and> in_page N i x) \<longleftrightarrow> unat x < unat N * unat (PAGE_SIZE_MINER N))
    \<and> ((\<forall>x. \<exists>i. i < N \<and> in_page N i x) \<longleftrightarrow> unat N dvd 2 ^ 32)"
proof (intro conjI allI impI)
  show "unat (PAGE_SIZE_MINER N) = 2 ^ 32 div unat N" by (rule PAGE_unat [OF assms])
  show "thread_to N i = thread_from N i + PAGE_SIZE_MINER N" for i by (rule thread_to_eq)
  show "j = i" if "i < N \<and> in_page N i x" "j < N \<and> in_page N j x" for i j x
    using that in_page_unique [OF assms] by blast
  show c: "(\<exists>i. i < N \<and> in_page N i x) \<longleftrightarrow> unat x < unat N * unat (PAGE_SIZE_MINER N)" for x
    by (rule covered_iff [OF assms])
  show "(\<forall>x. \<exists>i. i < N \<and> in_page N i x) \<longleftrightarrow> unat N dvd 2 ^ 32"
  proof
    assume "\<forall>x. \<exists>i. i < N \<and> in_page N i x"
    then have "unat (0xFFFFFFFF :: u32) < unat N * unat (PAGE_SIZE_MINER N)" using c by blast
    then have "2 ^ 32 \<le> unat N * unat (PAGE_SIZE_MINER N)" by simp
    with PAGE_mult_le [OF assms] have "unat N * unat (PAGE_SIZE_MINER N) = 2 ^ 32" by simp
    then show "unat N dvd 2 ^ 32" using tiles_iff_dvd [OF assms] by blast
  next
    assume "unat N dvd 2 ^ 32"
    then have e: "unat N * unat (PAGE_SIZE_MINER N) = 2 ^ 32" using tiles_iff_dvd [OF assms] by blast
    show "\<forall>x. \<exists>i. i < N \<and> in_page N i x"
    proof
      fix x :: u32
      have "unat x < 2 ^ 32" using unsigned_less [of x] by simp
      then show "\<exists>i. i < N \<and> in_page N i x" using c e by simp
    qed
  qed
qed

theorem partition_tiles_below_top_witness:
  "2 \<le> unat (4 :: u32)
    \<and> unat (PAGE_SIZE_MINER 4) = 2 ^ 32 div unat (4 :: u32)
    \<and> (\<forall>x. \<exists>i. i < 4 \<and> in_page 4 i x)"
proof -
  have h: "2 \<le> unat (4 :: u32)" by simp
  have d: "unat (4 :: u32) dvd 2 ^ 32" by simp
  note t = partition_tiles_below_top [OF h]
  have p: "unat (PAGE_SIZE_MINER 4) = 2 ^ 32 div unat (4 :: u32)"
    by (rule t [THEN conjunct1])
  have c: "\<forall>x. \<exists>i. i < 4 \<and> in_page 4 i x"
    by (rule iffD2 [OF t [THEN conjunct2, THEN conjunct2, THEN conjunct2, THEN conjunct2] d])
  from h p c show ?thesis by (intro conjI)
qed

text \<open>
  C4, the counterexample: three threads, nonce \<open>0xFFFFFFFF\<close>.  The page size is
  \<open>0x55555555\<close>, the last worker's \<^verbatim>\<open>to\<close> is \<open>0xFFFFFFFF\<close>, and none of the three
  workers has \<^verbatim>\<open>from <= nonce < to\<close>.
\<close>

theorem partition_gap_three_threads:
  "PAGE_SIZE_MINER 3 = 0x55555555 \<and> thread_to 3 2 = 0xFFFFFFFF
   \<and> \<not> (thread_from 3 0 \<le> (0xFFFFFFFF :: u32) \<and> (0xFFFFFFFF :: u32) < thread_to 3 0)
   \<and> \<not> (thread_from 3 1 \<le> (0xFFFFFFFF :: u32) \<and> (0xFFFFFFFF :: u32) < thread_to 3 1)
   \<and> \<not> (thread_from 3 2 \<le> (0xFFFFFFFF :: u32) \<and> (0xFFFFFFFF :: u32) < thread_to 3 2)"
  by (simp add: thread_from_def thread_to_def PAGE_SIZE_MINER_def)

text \<open>
  C5 (as amended).  The nonce counter of a worker (\<^verbatim>\<open>msgctx.val[4][3]\<close>) starts at
  \<^verbatim>\<open>from\<close>; each batch call adds exactly three to it, modulo \<open>2^32\<close>: after \<open>n\<close> passes
  that went round again it is \<open>from + 3 * n\<close>, and it is strictly above every earlier
  value as long as \<open>from + 3 * n\<close> stays below \<open>2^32\<close>.  Nothing is said about the
  interval: the loop does not compare the counter with \<^verbatim>\<open>to\<close>.
\<close>

theorem nonce_counter_steps_by_three:
  assumes "length bleheaders = 112"
    and "work_passes env fuel idx from to hp n (start_finder env idx block0 bleheaders from h) = Some st"
  shows "lane3 (msgctx (start_finder env idx block0 bleheaders from h) 4) = from
       \<and> lane3 (msgctx st 4) = from + 3 * word_of_nat n
       \<and> lane3 (BleMiner3Way (msgctx st) 4) = lane3 (msgctx st 4) + 3
       \<and> (unat from + 3 * n < 2 ^ 32 \<longrightarrow> unat (lane3 (msgctx st 4)) = unat from + 3 * n)"
proof -
  note c = start_counter [OF assms(1), of env idx block0 "from" h]
  from work_passes_counter [OF assms(2)]
  have k: "lane3 (msgctx st 4) = from + 3 * word_of_nat n" unfolding c by simp
  have "unat (lane3 (msgctx st 4)) = unat from + 3 * n" if "unat from + 3 * n < 2 ^ 32"
  proof -
    have "from + 3 * word_of_nat n = (word_of_nat (unat from + 3 * n) :: u32)" by simp
    then show ?thesis unfolding k using that by (simp only: unat_of_nat) simp
  qed
  with c k show ?thesis by (simp add: BleMiner3Way_counter)
qed

theorem nonce_counter_steps_by_three_witness:
  "(let env = \<lparr>Params = \<lparr>powLimit = 2 ^ 224 - 1\<rparr>, GetAdjustedTime = \<lambda>i. 1540000000 + word_of_nat i, chain_tip = \<lambda>i. [],
                 hasPeers = \<lambda>i. True, other_threads = \<lambda>i h. h\<rparr>;
        b = \<lparr>hashPrevBlock = [], nTime = 1540000000, nBits = 0x1d80ffff, nNonce = 0\<rparr>;
        h = \<lparr>found = False, interrupt = False, stop = False, block = CBlock_null,
              mineStartTime = 0, currentOffset = \<lambda>i. 0\<rparr>
    in map_option (\<lambda>st. lane3 (msgctx st 4))
          (work_passes env 0 3 0xC0000000 0 [] 2000000
             (start_finder env 3 b (replicate 112 0) 0xC0000000 h))
        = Some 0xC05B8D80)"
proof -
  let ?env = "\<lparr>Params = \<lparr>powLimit = 2 ^ 224 - 1\<rparr>, GetAdjustedTime = \<lambda>i. 1540000000 + word_of_nat i, chain_tip = \<lambda>i. [],
                 hasPeers = \<lambda>i. True, other_threads = \<lambda>i h. h\<rparr>"
  let ?b = "\<lparr>hashPrevBlock = [], nTime = 1540000000, nBits = 0x1d80ffff, nNonce = 0\<rparr>"
  let ?h = "\<lparr>found = False, interrupt = False, stop = False, block = CBlock_null,
              mineStartTime = 0, currentOffset = \<lambda>i. 0\<rparr>"
  let ?s = "start_finder ?env 3 ?b (replicate 112 0) 0xC0000000 ?h"
  have i: "(3 :: u32) \<noteq> 0" by simp
  have q: "\<forall>k h. \<not> stop h \<longrightarrow> \<not> stop (other_threads ?env k h)" by simp
  have s: "\<not> stop (handler ?s)" by (simp add: start_finder_def)
  have "compact_negative 0x1d80ffff" by (simp add: compact_negative_def compact_word_def)
  then have n: "\<forall>d. \<not> CheckProofOfWork d (nBits (blk ?s)) (chainparams ?s)"
    by (simp add: start_finder_def compact_negative_fails)
  from quiet_run [OF i q s n] obtain st where
    r: "work_passes ?env 0 3 0xC0000000 0 [] 2000000 ?s = Some st" by blast
  have l: "length (replicate 112 (0 :: u8)) = 112" by simp
  from nonce_counter_steps_by_three [OF l r]
  have "lane3 (msgctx st 4) = 0xC0000000 + 3 * word_of_nat 2000000" by (rule conjunct2 [THEN conjunct1])
  then have "lane3 (msgctx st 4) = 0xC05B8D80" by simp
  then show ?thesis
    unfolding Let_def r by simp
qed

text \<open>
  C5, the counterexample: worker 1 of four threads, with the interval
  \<open>[0x40000000, 0x80000000)\<close>, on a block that no hash satisfies and with no other
  thread setting \<^verbatim>\<open>stop\<close>.  After 357913941 batch calls the counter is \<open>0x7FFFFFFF\<close>;
  the next call hashes the nonces \<open>0x7FFFFFFF\<close>, \<open>0x80000000\<close> and \<open>0x80000001\<close>, the loop
  goes round again, and the call after it starts at \<open>0x80000002\<close>, above \<^verbatim>\<open>to\<close>, and
  leaves the counter at \<open>0x80000005\<close>.
\<close>

theorem nonce_counter_leaves_interval:
  "(let env = \<lparr>Params = \<lparr>powLimit = 2 ^ 224 - 1\<rparr>, GetAdjustedTime = \<lambda>i. 1540000000 + word_of_nat i, chain_tip = \<lambda>i. [],
                 hasPeers = \<lambda>i. True, other_threads = \<lambda>i h. h\<rparr>;
        b = \<lparr>hashPrevBlock = [], nTime = 1540000000, nBits = 0x1d80ffff, nNonce = 0\<rparr>;
        h = \<lparr>found = False, interrupt = False, stop = False, block = CBlock_null,
              mineStartTime = 0, currentOffset = \<lambda>i. 0\<rparr>;
        counter_after = (\<lambda>n. map_option (\<lambda>st. lane3 (msgctx st 4))
          (work_passes env 0 1 0x40000000 0x80000000 [] n
             (start_finder env 1 b (replicate 112 0) 0x40000000 h)))
    in thread_from 4 1 = 0x40000000 \<and> thread_to 4 1 = 0x80000000
     \<and> counter_after 357913941 = Some 0x7FFFFFFF
     \<and> counter_after 357913942 = Some 0x80000002
     \<and> counter_after 357913943 = Some 0x80000005
     \<and> \<not> (0x80000002 :: u32) < 0x80000000)"
proof -
  let ?env = "\<lparr>Params = \<lparr>powLimit = 2 ^ 224 - 1\<rparr>, GetAdjustedTime = \<lambda>i. 1540000000 + word_of_nat i, chain_tip = \<lambda>i. [],
                 hasPeers = \<lambda>i. True, other_threads = \<lambda>i h. h\<rparr>"
  let ?b = "\<lparr>hashPrevBlock = [], nTime = 1540000000, nBits = 0x1d80ffff, nNonce = 0\<rparr>"
  let ?h = "\<lparr>found = False, interrupt = False, stop = False, block = CBlock_null,
              mineStartTime = 0, currentOffset = \<lambda>i. 0\<rparr>"
  let ?s = "start_finder ?env 1 ?b (replicate 112 0) 0x40000000 ?h"
  have i: "(1 :: u32) \<noteq> 0" by simp
  have q: "\<forall>k h. \<not> stop h \<longrightarrow> \<not> stop (other_threads ?env k h)" by simp
  have s: "\<not> stop (handler ?s)" by (simp add: start_finder_def)
  have "compact_negative 0x1d80ffff" by (simp add: compact_negative_def compact_word_def)
  then have n: "\<forall>d. \<not> CheckProofOfWork d (nBits (blk ?s)) (chainparams ?s)"
    by (simp add: start_finder_def compact_negative_fails)
  have l: "length (replicate 112 (0 :: u8)) = 112" by simp
  note c = start_counter [OF l, of ?env 1 ?b "0x40000000" ?h]
  have r: "map_option (\<lambda>st. lane3 (msgctx st 4))
             (work_passes ?env 0 1 0x40000000 0x80000000 [] k ?s)
           = Some (0x40000000 + 3 * word_of_nat k)" for k
  proof -
    from quiet_run [OF i q s n] obtain st where
      r: "work_passes ?env 0 1 0x40000000 0x80000000 [] k ?s = Some st" by blast
    from work_passes_counter [OF r] show ?thesis unfolding r c by simp
  qed
  have t: "thread_from 4 1 = 0x40000000 \<and> thread_to 4 1 = 0x80000000"
    by (simp add: thread_from_def thread_to_def PAGE_SIZE_MINER_def)
  show ?thesis
    unfolding Let_def r using t by simp
qed

text \<open>
  C6.  The housekeeping block runs when the counter is a multiple of 3000000, and the
  counter moves in steps of three from the worker's \<^verbatim>\<open>from\<close>.  For a worker whose
  \<^verbatim>\<open>from\<close> is not a multiple of three the counter is never a multiple of 3000000
  before it wraps around: as long as the passes go on and the counter stays below
  \<open>2^32\<close>, the time has not been read once, and the time of the block and of the cached
  message words is the one the worker started with.  With four threads this is worker 1
  (\<^verbatim>\<open>from\<close> \<open>0x40000000\<close>) and worker 2, through their whole interval.
\<close>

theorem housekeeping_never_due_from_misaligned_start:
  assumes "length bleheaders = 112"
    and "unat from mod 3 \<noteq> 0"
    and "unat from + 3 * n < 2 ^ 32"
    and "work_passes env fuel idx from to hp n (start_finder env idx block0 bleheaders from h) = Some st"
  shows "time_reads st = 0 \<and> nTime (blk st) = nTime block0
       \<and> lane1 (msgctx st 4) = lane1 (msgctx (start_finder env idx block0 bleheaders from h) 4)"
proof -
  let ?s = "start_finder env idx block0 bleheaders from h"
  have c: "lane3 (msgctx ?s 4) = from" by (rule start_counter [OF assms(1)])
  from assms(2,3) have "unat (lane3 (msgctx ?s 4)) mod 3 \<noteq> 0"
    "unat (lane3 (msgctx ?s 4)) + 3 * n < 2 ^ 32"
    unfolding c by simp_all
  from misaligned_run [OF assms(4) this] show ?thesis
    by (simp add: start_finder_def)
qed

theorem housekeeping_never_due_from_misaligned_start_witness:
  "(let env = \<lparr>Params = \<lparr>powLimit = 2 ^ 224 - 1\<rparr>, GetAdjustedTime = \<lambda>i. 1540000000 + word_of_nat i, chain_tip = \<lambda>i. [],
                 hasPeers = \<lambda>i. True, other_threads = \<lambda>i h. h\<rparr>;
        b = \<lparr>hashPrevBlock = [], nTime = 1540000000, nBits = 0x1d80ffff, nNonce = 0\<rparr>;
        h = \<lparr>found = False, interrupt = False, stop = False, block = CBlock_null,
              mineStartTime = 0, currentOffset = \<lambda>i. 0\<rparr>
    in thread_from 4 1 = 0x40000000 \<and> thread_to 4 1 = 0x80000000
     \<and> map_option (\<lambda>st. (time_reads st, nTime (blk st)))
          (work_passes env 0 1 0x40000000 0x80000000 [] 357913941
             (start_finder env 1 b (replicate 112 0) 0x40000000 h))
        = Some (0, 1540000000))"
proof -
  let ?env = "\<lparr>Params = \<lparr>powLimit = 2 ^ 224 - 1\<rparr>, GetAdjustedTime = \<lambda>i. 1540000000 + word_of_nat i, chain_tip = \<lambda>i. [],
                 hasPeers = \<lambda>i. True, other_threads = \<lambda>i h. h\<rparr>"
  let ?b = "\<lparr>hashPrevBlock = [], nTime = 1540000000, nBits = 0x1d80ffff, nNonce = 0\<rparr>"
  let ?h = "\<lparr>found = False, interrupt = False, stop = False, block = CBlock_null,
              mineStartTime = 0, currentOffset = \<lambda>i. 0\<rparr>"
  let ?s = "start_finder ?env 1 ?b (replicate 112 0) 0x40000000 ?h"
  have i: "(1 :: u32) \<noteq> 0" by simp
  have q: "\<forall>k h. \<not> stop h \<longrightarrow> \<not> stop (other_threads ?env k h)" by simp
  have s: "\<not> stop (handler ?s)" by (simp add: start_finder_def)
  have "compact_negative 0x1d80ffff" by (simp add: compact_negative_def compact_word_def)
  then have n: "\<forall>d. \<not> CheckProofOfWork d (nBits (blk ?s)) (chainparams ?s)"
    by (simp add: start_finder_def compact_negative_fails)
  from quiet_run [OF i q s n] obtain st where
    r: "work_passes ?env 0 1 0x40000000 0x80000000 [] 357913941 ?s = Some st" by blast
  have l: "length (replicate 112 (0 :: u8)) = 112" by simp
  have m: "unat (0x40000000 :: u32) mod 3 \<noteq> 0" by simp
  have b: "unat (0x40000000 :: u32) + 3 * 357913941 < 2 ^ 32" by simp
  from housekeeping_never_due_from_misaligned_start [OF l m b r]
  have "time_reads st = 0 \<and> nTime (blk st) = 1540000000" by simp
  moreover have "thread_from 4 1 = 0x40000000 \<and> thread_to 4 1 = 0x80000000"
    by (simp add: thread_from_def thread_to_def PAGE_SIZE_MINER_def)
  ultimately show ?thesis
    unfolding Let_def r by simp
qed




text \<open>
  C8.  (a) Whatever a run of the worker does, a block is handed to
  \<^verbatim>\<open>ProcessNewBlock\<close> only if the digest in \<^verbatim>\<open>currenthash\<close> passed
  \<^verbatim>\<open>CheckProofOfWork\<close> against the bits of that block (with the consensus parameters
  of the chain); the \<^verbatim>\<open>stop\<close> flag is then
  set, and the handler has \<^verbatim>\<open>found\<close> set and holds that block.  (b) The test of a lane
  leaves the loop, with the nonce written to the block and \<^verbatim>\<open>stop\<close> set, only when
  the lane's digest passes the full check.  (c) A quick-filter hit whose full check
  fails goes on to the next test with the handler (the \<^verbatim>\<open>found\<close> and \<^verbatim>\<open>stop\<close>
  flags), the block, the nonce counter, the time and the cached vectors as they were:
  only the two result vectors of that lane, which the next batch overwrites, are
  byte-swapped.
\<close>

theorem submission_only_after_full_check:
  "(proofOfWorkFinder env fuel n idx block0 bleheaders from to h = Some st \<longrightarrow>
      submitted st = None
      \<or> submitted st = Some (blk st) \<and> \<not> IsNull (blk st)
        \<and> CheckProofOfWork (currenthash st) (nBits (blk st)) (Params env)
        \<and> stop (handler st) \<and> found (handler st) \<and> block (handler st) = blk st)
   \<and> (test_lane lo hi back s = Break s' \<and> lo \<noteq> hi \<and> lo \<noteq> 4 \<and> hi \<noteq> 4 \<longrightarrow>
        quick_filter (msgctx s hi)
        \<and> CheckProofOfWork (hash_bytes (msgctx s lo) (msgctx s hi)) (nBits (blk s)) (chainparams s)
        \<and> currenthash s' = hash_bytes (msgctx s lo) (msgctx s hi)
        \<and> blk s' = (blk s)\<lparr>nNonce := lane3 (msgctx s 4) - back\<rparr>
        \<and> handler s' = (handler s)\<lparr>stop := True\<rparr>)
   \<and> (quick_filter (msgctx s hi) \<and> lo \<noteq> hi
        \<and> \<not> CheckProofOfWork (hash_bytes (msgctx s lo) (msgctx s hi)) (nBits (blk s)) (chainparams s) \<longrightarrow>
        (\<exists>s''. test_lane lo hi back s = Continue s'' \<and> handler s'' = handler s
            \<and> blk s'' = blk s \<and> submitted s'' = submitted s \<and> passes s'' = passes s
            \<and> (\<forall>i. i \<noteq> lo \<and> i \<noteq> hi \<longrightarrow> msgctx s'' i = msgctx s i)))"
proof -
  have a: "proofOfWorkFinder env fuel n idx block0 bleheaders from to h = Some st \<longrightarrow>
      submitted st = None
      \<or> submitted st = Some (blk st) \<and> \<not> IsNull (blk st)
        \<and> CheckProofOfWork (currenthash st) (nBits (blk st)) (Params env)
        \<and> stop (handler st) \<and> found (handler st) \<and> block (handler st) = blk st"
  proof
  assume "proofOfWorkFinder env fuel n idx block0 bleheaders from to h = Some st"
  then obtain s1 where
    l: "work_loop env fuel idx from to (start_hashPrev idx block0 h) n
          (start_finder env idx block0 bleheaders from h) = Some s1"
    and e: "st = submit env s1"
    by (auto simp add: proofOfWorkFinder_def)
  note w = work_loop_result [OF l]
  from w have n: "submitted s1 = None" by (simp add: start_finder_def)
  from w have p: "chainparams s1 = Params env" by (simp add: start_finder_def)
  from w have c: "IsNull (blk s1) \<or> CheckProofOfWork (currenthash s1) (nBits (blk s1)) (Params env) \<and> stop (handler s1)"
    unfolding p by (elim conjE)
  note f = submit_frame [of env s1]
  from submit_submitted [of env s1]
  show "submitted st = None
      \<or> submitted st = Some (blk st) \<and> \<not> IsNull (blk st)
        \<and> CheckProofOfWork (currenthash st) (nBits (blk st)) (Params env)
        \<and> stop (handler st) \<and> found (handler st) \<and> block (handler st) = blk st"
  proof
    assume "submitted (submit env s1) = submitted s1 \<and> handler (submit env s1) = handler s1"
    with n e show ?thesis by simp
  next
    assume a: "\<not> IsNull (blk s1) \<and> submitted (submit env s1) = Some (blk s1)
       \<and> handler (submit env s1) = (handler s1)\<lparr>found := True, block := blk s1\<rparr>"
    with c have "CheckProofOfWork (currenthash s1) (nBits (blk s1)) (Params env) \<and> stop (handler s1)" by blast
    with a f e show ?thesis by simp
  qed
  qed
  have b: "test_lane lo hi back s = Break s' \<and> lo \<noteq> hi \<and> lo \<noteq> 4 \<and> hi \<noteq> 4 \<longrightarrow>
        quick_filter (msgctx s hi)
        \<and> CheckProofOfWork (hash_bytes (msgctx s lo) (msgctx s hi)) (nBits (blk s)) (chainparams s)
        \<and> currenthash s' = hash_bytes (msgctx s lo) (msgctx s hi)
        \<and> blk s' = (blk s)\<lparr>nNonce := lane3 (msgctx s 4) - back\<rparr>
        \<and> handler s' = (handler s)\<lparr>stop := True\<rparr>"
  proof
  assume "test_lane lo hi back s = Break s' \<and> lo \<noteq> hi \<and> lo \<noteq> 4 \<and> hi \<noteq> 4"
  then have "test_lane lo hi back s = Break s'" "lo \<noteq> hi" "lo \<noteq> 4" "hi \<noteq> 4" by simp_all
  from test_lane_Break [OF this]
  show "quick_filter (msgctx s hi)
        \<and> CheckProofOfWork (hash_bytes (msgctx s lo) (msgctx s hi)) (nBits (blk s)) (chainparams s)
        \<and> currenthash s' = hash_bytes (msgctx s lo) (msgctx s hi)
        \<and> blk s' = (blk s)\<lparr>nNonce := lane3 (msgctx s 4) - back\<rparr>
        \<and> handler s' = (handler s)\<lparr>stop := True\<rparr>"
    by simp
  qed
  have c: "quick_filter (msgctx s hi) \<and> lo \<noteq> hi
        \<and> \<not> CheckProofOfWork (hash_bytes (msgctx s lo) (msgctx s hi)) (nBits (blk s)) (chainparams s) \<longrightarrow>
        (\<exists>s''. test_lane lo hi back s = Continue s'' \<and> handler s'' = handler s
            \<and> blk s'' = blk s \<and> submitted s'' = submitted s \<and> passes s'' = passes s
            \<and> (\<forall>i. i \<noteq> lo \<and> i \<noteq> hi \<longrightarrow> msgctx s'' i = msgctx s i))"
  proof
  assume a: "quick_filter (msgctx s hi) \<and> lo \<noteq> hi
        \<and> \<not> CheckProofOfWork (hash_bytes (msgctx s lo) (msgctx s hi)) (nBits (blk s)) (chainparams s)"
  then have "\<not> (quick_filter (msgctx s hi)
      \<and> CheckProofOfWork (hash_bytes (msgctx s lo) (msgctx s hi)) (nBits (blk s)) (chainparams s))" "lo \<noteq> hi"
    by simp_all
  from test_lane_miss [OF this] obtain s'' where t: "test_lane lo hi back s = Continue s''" ..
  from test_lane_Continue [OF t] t
  show "\<exists>s''. test_lane lo hi back s = Continue s'' \<and> handler s'' = handler s
            \<and> blk s'' = blk s \<and> submitted s'' = submitted s \<and> passes s'' = passes s
            \<and> (\<forall>i. i \<noteq> lo \<and> i \<noteq> hi \<longrightarrow> msgctx s'' i = msgctx s i)"
    by (intro exI [of _ s'']) simp
  qed
  show ?thesis by (rule conjI [OF a conjI [OF b c]])
qed

theorem submission_only_after_full_check_witness:
  "(let env = \<lparr>Params = \<lparr>powLimit = 2 ^ 224 - 1\<rparr>, GetAdjustedTime = \<lambda>i. 0, chain_tip = \<lambda>i. [], hasPeers = \<lambda>i. True,
                 other_threads = \<lambda>i h. h\<rparr>;
        stopped = \<lparr>found = False, interrupt = False, stop = True, block = CBlock_null,
                    mineStartTime = 0, currentOffset = \<lambda>i. 0\<rparr>;
        quiet = \<lparr>found = False, interrupt = False, stop = False, block = CBlock_null,
                  mineStartTime = 0, currentOffset = \<lambda>i. 0\<rparr>;
        b = \<lparr>hashPrevBlock = [], nTime = 0, nBits = 0x1d00ffff, nNonce = 0\<rparr>;
        hit = \<lparr>chainparams = \<lparr>powLimit = 2 ^ 224 - 1\<rparr>, msgctx = (\<lambda>i. (0, 0, 0, 0))(4 := (0, 0, 0, 10)), blk = b,
                currenthash = [], chaintipblockhash = [], handler = quiet,
                passes = 1, time_reads = 0, tip_reads = 0, peer_probes = 0, slept = 0,
                submitted = None\<rparr>;
        miss = hit\<lparr>blk := b\<lparr>nBits := 0x1d80ffff\<rparr>\<rparr>
    in map_option submitted (proofOfWorkFinder env 0 1 2 b (replicate 112 0) 0 0 stopped) = Some None
     \<and> (case test_lane 6 7 3 hit of
           Break s \<Rightarrow> currenthash s = replicate 32 0 \<and> nNonce (blk s) = 7 \<and> stop (handler s)
         | Continue s \<Rightarrow> False)
     \<and> CheckProofOfWork (replicate 32 0) 0x1d00ffff \<lparr>powLimit = 2 ^ 224 - 1\<rparr>
     \<and> quick_filter (msgctx miss 7)
     \<and> (case test_lane 6 7 3 miss of
           Continue s \<Rightarrow> handler s = quiet \<and> blk s = blk miss \<and> msgctx s 4 = (0, 0, 0, 10)
         | Break s \<Rightarrow> False))"
proof -
  let ?env = "\<lparr>Params = \<lparr>powLimit = 2 ^ 224 - 1\<rparr>, GetAdjustedTime = \<lambda>i. 0, chain_tip = \<lambda>i. [], hasPeers = \<lambda>i. True,
                 other_threads = \<lambda>i h. h\<rparr>"
  let ?stopped = "\<lparr>found = False, interrupt = False, stop = True, block = CBlock_null,
                    mineStartTime = 0, currentOffset = \<lambda>i. 0\<rparr>"
  let ?quiet = "\<lparr>found = False, interrupt = False, stop = False, block = CBlock_null,
                  mineStartTime = 0, currentOffset = \<lambda>i. 0\<rparr>"
  let ?b = "\<lparr>hashPrevBlock = [], nTime = 0, nBits = 0x1d00ffff, nNonce = 0\<rparr>"
  let ?hit = "\<lparr>chainparams = \<lparr>powLimit = 2 ^ 224 - 1\<rparr>, msgctx = (\<lambda>i. (0, 0, 0, 0))(4 := (0, 0, 0, 10)), blk = ?b,
                currenthash = [], chaintipblockhash = [], handler = ?quiet,
                passes = 1, time_reads = 0, tip_reads = 0, peer_probes = 0, slept = 0,
                submitted = None\<rparr>"
  let ?miss = "?hit\<lparr>blk := ?b\<lparr>nBits := 0x1d80ffff\<rparr>\<rparr>"
  have z: "hash_bytes (0, 0, 0, 0) (0, 0, 0, 0) = replicate 32 0"
    by (simp add: hash_bytes_state_bytes state_bytes_def be_bytes_def numeral_eq_Suc)
  have ok: "CheckProofOfWork (replicate 32 0) 0x1d00ffff \<lparr>powLimit = 2 ^ 224 - 1\<rparr>"
    unfolding z [symmetric]
    by (simp add: CheckProofOfWork_def hash_bytes_state_bytes state_bytes_def be_bytes_def
        uint256_value_def compact_negative_def compact_target_def compact_overflow_def
        compact_size_def compact_word_def)
  have "compact_negative 0x1d80ffff" by (simp add: compact_negative_def compact_word_def)
  then have no: "\<not> CheckProofOfWork d 0x1d80ffff p" for d p by (rule compact_negative_fails)
  \<comment> \<open>(a): a worker that finds the session stopped\<close>
  obtain st where
    r: "proofOfWorkFinder ?env 0 1 2 ?b (replicate 112 0) 0 0 ?stopped = Some st"
    by (simp add: proofOfWorkFinder_def work_pass_def Let_def start_finder_def)
  have sn: "submitted st = None"
    using r by (auto simp add: proofOfWorkFinder_def work_pass_def Let_def start_finder_def
        submit_def IsNull_def SetNull_def)
  \<comment> \<open>(b): a lane whose digest passes\<close>
  have "quick_filter (msgctx ?hit 7)" by (simp add: quick_filter_def lane3_def)
  moreover have "CheckProofOfWork (hash_bytes (msgctx ?hit 6) (msgctx ?hit 7)) (nBits (blk ?hit)) (chainparams ?hit)"
    using ok by (simp add: z)
  ultimately have "\<exists>s'. test_lane 6 7 3 ?hit = Break s'"
    by (rule test_lane_hit) simp
  then obtain s' where brk: "test_lane 6 7 3 ?hit = Break s'" ..
  note t = submission_only_after_full_check
    [of ?env 0 1 2 ?b "replicate 112 0" 0 0 ?stopped st 6 7 3 ?hit s']
  from t [THEN conjunct2, THEN conjunct1] brk
  have b: "currenthash s' = replicate 32 0" "nNonce (blk s') = 7" "stop (handler s')"
    by (simp_all add: z lane3_def)
  \<comment> \<open>(c): a quick-filter hit that fails the full check\<close>
  have q: "quick_filter (msgctx ?miss 7)" by (simp add: quick_filter_def lane3_def)
  have "\<not> CheckProofOfWork (hash_bytes (msgctx ?miss 6) (msgctx ?miss 7)) (nBits (blk ?miss)) (chainparams ?miss)"
    using no by simp
  with q submission_only_after_full_check
    [of ?env 0 1 2 ?b "replicate 112 0" 0 0 ?stopped st 6 7 3 ?miss s',
      THEN conjunct2, THEN conjunct2]
  obtain s'' where c: "test_lane 6 7 3 ?miss = Continue s''" "handler s'' = handler ?miss"
    "blk s'' = blk ?miss" "\<forall>i. i \<noteq> 6 \<and> i \<noteq> 7 \<longrightarrow> msgctx s'' i = msgctx ?miss i"
    by auto
  from c(4) have m: "msgctx s'' 4 = (0, 0, 0, 10)" by simp
  from r sn brk b ok q c(1,2,3) m show ?thesis
    unfolding Let_def by simp
qed

text \<open>
  C9.  A worker that leaves the loop with a block and finds no peers: when none of
  the probes reports a peer, it probes once, then sleeps 100 ms fifty times with a probe
  before each sleep and one after the last, probes a last time and returns.  It has
  slept \<open>50 * 100\<close> ms and probed 53 times; the handler (with its \<^verbatim>\<open>found\<close> flag) is as
  it was and nothing was handed to \<^verbatim>\<open>ProcessNewBlock\<close>.
\<close>

theorem no_peers_abandons_submission:
  assumes "\<not> IsNull (blk st)"
    and "\<forall>k. k \<le> 52 \<longrightarrow> \<not> hasPeers env (peer_probes st + k)"
  shows "handler (submit env st) = handler st
       \<and> found (handler (submit env st)) = found (handler st)
       \<and> submitted (submit env st) = submitted st
       \<and> blk (submit env st) = blk st
       \<and> slept (submit env st) = slept st + 50 * 100
       \<and> peer_probes (submit env st) = peer_probes st + 53"
  by (simp add: submit_no_peers [OF assms])

theorem no_peers_abandons_submission_witness:
  "(let env = \<lparr>Params = \<lparr>powLimit = 2 ^ 224 - 1\<rparr>, GetAdjustedTime = \<lambda>i. 0, chain_tip = \<lambda>i. [], hasPeers = \<lambda>i. False,
                 other_threads = \<lambda>i h. h\<rparr>;
        st = \<lparr>chainparams = \<lparr>powLimit = 2 ^ 224 - 1\<rparr>, msgctx = \<lambda>i. (0, 0, 0, 0),
               blk = \<lparr>hashPrevBlock = [], nTime = 0, nBits = 0x1d00ffff, nNonce = 7\<rparr>,
               currenthash = replicate 32 0, chaintipblockhash = [],
               handler = \<lparr>found = False, interrupt = False, stop = True, block = CBlock_null,
                           mineStartTime = 0, currentOffset = \<lambda>i. 0\<rparr>,
               passes = 1, time_reads = 0, tip_reads = 0, peer_probes = 0, slept = 0,
               submitted = None\<rparr>
    in \<not> IsNull (blk st) \<and> \<not> found (handler (submit env st))
       \<and> submitted (submit env st) = None \<and> slept (submit env st) = 5000
       \<and> peer_probes (submit env st) = 53)"
proof -
  let ?env = "\<lparr>Params = \<lparr>powLimit = 2 ^ 224 - 1\<rparr>, GetAdjustedTime = \<lambda>i. 0, chain_tip = \<lambda>i. [], hasPeers = \<lambda>i. False,
                 other_threads = \<lambda>i h. h\<rparr>"
  let ?st = "\<lparr>chainparams = \<lparr>powLimit = 2 ^ 224 - 1\<rparr>, msgctx = \<lambda>i. (0, 0, 0, 0),
               blk = \<lparr>hashPrevBlock = [], nTime = 0, nBits = 0x1d00ffff, nNonce = 7\<rparr>,
               currenthash = replicate 32 0, chaintipblockhash = [],
               handler = \<lparr>found = False, interrupt = False, stop = True, block = CBlock_null,
                           mineStartTime = 0, currentOffset = \<lambda>i. 0\<rparr>,
               passes = 1, time_reads = 0, tip_reads = 0, peer_probes = 0, slept = 0,
               submitted = None\<rparr>"
  have n: "\<not> IsNull (blk ?st)" by (simp add: IsNull_def)
  have p: "\<forall>k. k \<le> 52 \<longrightarrow> \<not> hasPeers ?env (peer_probes ?st + k)" by simp
  from no_peers_abandons_submission [OF n p] n show ?thesis
    unfolding Let_def by simp
qed


end
